theory Spec2Isabelle
  imports
    Main
    "HOL-Library.AList"
    "HOL-Library.Char_ord"
    "HOL-Library.List_Lexorder"
begin

section \<open>JSON values as the Python code holds them\<close>

text \<open>
  A credential, a key configuration, a typed message and a verification result are all
  values produced by \<^verbatim>\<open>json.load\<close> or built from dict literals: a tree of
  \<^verbatim>\<open>None\<close>, booleans, integers, strings, lists and insertion-ordered dicts with
  string keys.  A dict is an association list in insertion order.  Python's
  \<^verbatim>\<open>None\<close> and JSON \<^verbatim>\<open>null\<close> are one value, \<open>JNull\<close>.
  Floating-point numbers are outside the model.  A Python string is a list of code
  points; the model keeps the code points below 256.
\<close>

datatype json =
    JNull
  | JBool bool
  | JInt int
  | JStr string
  | JArr "json list"
  | JObj "(string \<times> json) list"

datatype error =
    AttributeError
  | TypeError
  | ValueError
  | LibraryError


subsection \<open>Dict and truth-value primitives of Python\<close>

definition is_dict :: "json \<Rightarrow> bool" where
  "is_dict j = (case j of JObj _ \<Rightarrow> True | _ \<Rightarrow> False)"

text \<open>\<^verbatim>\<open>k in d\<close> for a dict \<open>d\<close>; the callers test \<open>is_dict\<close> first.\<close>

definition has_key :: "string \<Rightarrow> json \<Rightarrow> bool" where
  "has_key k j = (case j of JObj kvs \<Rightarrow> k \<in> set (map fst kvs) | _ \<Rightarrow> False)"

text \<open>\<^verbatim>\<open>d.get(k, dflt)\<close>: raises \<^verbatim>\<open>AttributeError\<close> when \<open>d\<close> is not a dict
  (None, bool, int, str and list have no \<^verbatim>\<open>get\<close>).\<close>

definition dict_get :: "json \<Rightarrow> string \<Rightarrow> json \<Rightarrow> error + json" where
  "dict_get j k dflt =
     (case j of
        JObj kvs \<Rightarrow> (case map_of kvs k of None \<Rightarrow> Inr dflt | Some v \<Rightarrow> Inr v)
      | _ \<Rightarrow> Inl AttributeError)"

text \<open>\<^verbatim>\<open>d[k] = v\<close> on a dict: the key keeps its position, a new key goes last.\<close>

definition dict_set :: "string \<Rightarrow> json \<Rightarrow> json \<Rightarrow> json" where
  "dict_set k v j = (case j of JObj kvs \<Rightarrow> JObj (AList.update k v kvs) | _ \<Rightarrow> j)"

text \<open>\<^verbatim>\<open>d.pop(k, None)\<close> on a dict, the popped value dropped.\<close>

definition dict_pop :: "string \<Rightarrow> json \<Rightarrow> json" where
  "dict_pop k j = (case j of JObj kvs \<Rightarrow> JObj (AList.delete k kvs) | _ \<Rightarrow> j)"

text \<open>Python truthiness of a JSON value, and \<^verbatim>\<open>x or y\<close>.\<close>

fun truthy :: "json \<Rightarrow> bool" where
  "truthy JNull = False"
| "truthy (JBool b) = b"
| "truthy (JInt i) = (i \<noteq> 0)"
| "truthy (JStr s) = (s \<noteq> [])"
| "truthy (JArr xs) = (xs \<noteq> [])"
| "truthy (JObj kvs) = (kvs \<noteq> [])"

definition py_or :: "json \<Rightarrow> json \<Rightarrow> json" where
  "py_or x y = (if truthy x then x else y)"

subsection \<open>Decimal rendering of integers\<close>

definition digit_char :: "nat \<Rightarrow> char" where
  "digit_char d = char_of (48 + d)"

fun show_nat :: "nat \<Rightarrow> string" where
  "show_nat n = (if n < 10 then [digit_char n] else show_nat (n div 10) @ [digit_char (n mod 10)])"

declare show_nat.simps [simp del]

definition show_int :: "int \<Rightarrow> string" where
  "show_int i = (if i < 0 then CHR ''-'' # show_nat (nat (- i)) else show_nat (nat i))"

section \<open>crypto.py: canonical JSON\<close>

text \<open>
  \<^verbatim>\<open>json.dumps(data, sort_keys=True, separators=(",", ":"), ensure_ascii=False)\<close>.
  The encoder escapes the quote, the backslash and the control characters below 0x20
  and writes every other character as it is; it sorts the items of each dict by key
  (keys are strings, compared by code point) and joins with \<^verbatim>\<open>,\<close> and
  \<^verbatim>\<open>:\<close> alone.
\<close>

definition hex_digit :: "nat \<Rightarrow> char" where
  "hex_digit d = (if d < 10 then char_of (48 + d) else char_of (87 + d))"

definition escape_char :: "char \<Rightarrow> string" where
  "escape_char c =
     (if c = CHR ''\"'' then [CHR 0x5C, CHR ''\"'']
      else if c = CHR 0x5C then [CHR 0x5C, CHR 0x5C]
      else if c = CHR 0x0A then [CHR 0x5C, CHR ''n'']
      else if c = CHR 0x0D then [CHR 0x5C, CHR ''r'']
      else if c = CHR 0x09 then [CHR 0x5C, CHR ''t'']
      else if c = CHR 0x08 then [CHR 0x5C, CHR ''b'']
      else if c = CHR 0x0C then [CHR 0x5C, CHR ''f'']
      else if (of_char c :: nat) < 32 then
        [CHR 0x5C, CHR ''u'', CHR ''0'', CHR ''0'',
         hex_digit ((of_char c :: nat) div 16), hex_digit ((of_char c :: nat) mod 16)]
      else [c])"

definition encode_str :: "string \<Rightarrow> string" where
  "encode_str s = CHR ''\"'' # concat (map escape_char s) @ [CHR ''\"'']"

fun join_with :: "string \<Rightarrow> string list \<Rightarrow> string" where
  "join_with sep [] = []"
| "join_with sep [x] = x"
| "join_with sep (x # y # ys) = x @ sep @ join_with sep (y # ys)"

function to_canonical_json :: "json \<Rightarrow> string" where
  "to_canonical_json JNull = ''null''"
| "to_canonical_json (JBool b) = (if b then ''true'' else ''false'')"
| "to_canonical_json (JInt i) = show_int i"
| "to_canonical_json (JStr s) = encode_str s"
| "to_canonical_json (JArr xs) = ''['' @ join_with '','' (map to_canonical_json xs) @ '']''"
| "to_canonical_json (JObj kvs) =
     ''{'' @ join_with '',''
        (map (\<lambda>kv. encode_str (fst kv) @ '':'' @ to_canonical_json (snd kv))
             (sort_key fst kvs)) @ ''}''"
  by pat_completeness auto
termination
proof (relation "measure size")
  fix kvs :: "(string \<times> json) list" and kv
  assume "kv \<in> set (sort_key fst kvs)"
  then have "kv \<in> set kvs" by simp
  then have "size (snd kv) < Suc (size_list (size_prod (\<lambda>_. 0) size) kvs)"
    by (induction kvs) (auto simp: less_Suc_eq_le)
  then show "(snd kv, JObj kvs) \<in> measure size" by simp
qed (auto simp: less_Suc_eq_le size_list_estimation')

text \<open>
  The library calls of \<^verbatim>\<open>crypto.py\<close> (\<^verbatim>\<open>eth_utils.keccak\<close>,
  \<^verbatim>\<open>eth_account.Account\<close>, \<^verbatim>\<open>encode_typed_data\<close>) and the two Python
  built-ins whose full behaviour is not needed (\<^verbatim>\<open>repr\<close> of a list or dict,
  \<^verbatim>\<open>int\<close> of a string) are parameters of the model.  \<open>None\<close> stands for
  a raised exception.
\<close>

record account =
  acct_key :: string
  acct_address :: string

record env =
  keccak_hex :: "string \<Rightarrow> string"
  from_key :: "json \<Rightarrow> account option"
  encode_typed_data :: "json \<Rightarrow> string option"
  sign_message :: "string \<Rightarrow> string \<Rightarrow> string"
  recover_message :: "string \<Rightarrow> json \<Rightarrow> string option"
  py_repr :: "json \<Rightarrow> string"
  int_of_str :: "string \<Rightarrow> int option"

text \<open>\<^verbatim>\<open>to_hex(keccak(to_canonical_json(data).encode("utf-8")))\<close>\<close>

definition keccak256_json :: "env \<Rightarrow> json \<Rightarrow> string" where
  "keccak256_json c data = keccak_hex c (to_canonical_json data)"

text \<open>\<^verbatim>\<open>str(x)\<close> and \<^verbatim>\<open>int(x)\<close> on a JSON value.\<close>

definition py_str :: "env \<Rightarrow> json \<Rightarrow> string" where
  "py_str c j =
     (case j of
        JStr s \<Rightarrow> s
      | JInt i \<Rightarrow> show_int i
      | JBool b \<Rightarrow> (if b then ''True'' else ''False'')
      | JNull \<Rightarrow> ''None''
      | _ \<Rightarrow> py_repr c j)"

definition py_int :: "env \<Rightarrow> json \<Rightarrow> error + int" where
  "py_int c j =
     (case j of
        JInt i \<Rightarrow> Inr i
      | JBool b \<Rightarrow> Inr (if b then 1 else 0)
      | JStr s \<Rightarrow> (case int_of_str c s of None \<Rightarrow> Inl ValueError | Some i \<Rightarrow> Inr i)
      | _ \<Rightarrow> Inl TypeError)"

text \<open>\<^verbatim>\<open>s.lower()\<close> on code points below 256.\<close>

definition lower_char :: "char \<Rightarrow> char" where
  "lower_char ch =
     (let n = (of_char ch :: nat)
      in if (65 \<le> n \<and> n \<le> 90) \<or> (192 \<le> n \<and> n \<le> 214) \<or> (216 \<le> n \<and> n \<le> 222)
         then char_of (n + 32) else ch)"

definition py_lower :: "string \<Rightarrow> string" where
  "py_lower s = map lower_char s"

record eip712_domain =
  name :: json
  version :: string
  chainId :: int
  verifyingContract :: json

definition as_dict :: "eip712_domain \<Rightarrow> json" where
  "as_dict d = JObj
     [(''name'', name d),
      (''version'', JStr (version d)),
      (''chainId'', JInt (chainId d)),
      (''verifyingContract'', verifyingContract d)]"

definition field_decl :: "string \<Rightarrow> string \<Rightarrow> json" where
  "field_decl n t = JObj [(''name'', JStr n), (''type'', JStr t)]"

definition eip712_domain_type :: json where
  "eip712_domain_type = JArr
     [field_decl ''name'' ''string'',
      field_decl ''version'' ''string'',
      field_decl ''chainId'' ''uint256'',
      field_decl ''verifyingContract'' ''address'']"

definition build_section_typed_data :: "eip712_domain \<Rightarrow> string \<Rightarrow> string \<Rightarrow> json" where
  "build_section_typed_data domain path section_hash_hex = JObj
     [(''types'', JObj
         [(''EIP712Domain'', eip712_domain_type),
          (''Section'', JArr
             [field_decl ''path'' ''string'', field_decl ''sectionHash'' ''bytes32''])]),
      (''primaryType'', JStr ''Section''),
      (''domain'', as_dict domain),
      (''message'', JObj
         [(''path'', JStr path), (''sectionHash'', JStr section_hash_hex)])]"

definition build_document_typed_data :: "eip712_domain \<Rightarrow> string \<Rightarrow> json" where
  "build_document_typed_data domain document_hash_hex = JObj
     [(''types'', JObj
         [(''EIP712Domain'', eip712_domain_type),
          (''Document'', JArr [field_decl ''documentHash'' ''bytes32''])]),
      (''primaryType'', JStr ''Document''),
      (''domain'', as_dict domain),
      (''message'', JObj [(''documentHash'', JStr document_hash_hex)])]"

definition sign_typed_data :: "env \<Rightarrow> json \<Rightarrow> json \<Rightarrow> error + (string \<times> string)" where
  "sign_typed_data c private_key_hex typed_data =
     (case from_key c private_key_hex of
        None \<Rightarrow> Inl LibraryError
      | Some acct \<Rightarrow>
          (case encode_typed_data c typed_data of
             None \<Rightarrow> Inl LibraryError
           | Some encoded \<Rightarrow>
               Inr (sign_message c encoded (acct_key acct), acct_address acct)))"

definition recover_typed_data_signer :: "env \<Rightarrow> json \<Rightarrow> json \<Rightarrow> error + string" where
  "recover_typed_data_signer c typed_data signature_hex =
     (case encode_typed_data c typed_data of
        None \<Rightarrow> Inl LibraryError
      | Some encoded \<Rightarrow>
          (case recover_message c encoded signature_hex of
             None \<Rightarrow> Inl LibraryError
           | Some recovered \<Rightarrow> Inr recovered))"

section \<open>The path resolver\<close>

definition SECTION_PATHS :: "string list" where
  "SECTION_PATHS =
     [''/credentialSubject/identity'',
      ''/credentialSubject/compliance'',
      ''/credentialSubject/custody'']"

fun split_on :: "char \<Rightarrow> string \<Rightarrow> string list" where
  "split_on c [] = [[]]"
| "split_on c (x # xs) =
     (if x = c then [] # split_on c xs
      else (case split_on c xs of [] \<Rightarrow> [[x]] | p # ps \<Rightarrow> (x # p) # ps))"

text \<open>\<^verbatim>\<open>[p for p in path.split("/") if p]\<close>\<close>

definition path_parts :: "string \<Rightarrow> string list" where
  "path_parts path = filter (\<lambda>p. p \<noteq> []) (split_on CHR ''/'' path)"

fun walk :: "json \<Rightarrow> string list \<Rightarrow> json" where
  "walk cur [] = cur"
| "walk cur (p # ps) =
     (case cur of
        JObj kvs \<Rightarrow> (case map_of kvs p of Some v \<Rightarrow> walk v ps | None \<Rightarrow> JNull)
      | _ \<Rightarrow> JNull)"

definition get_by_path :: "json \<Rightarrow> string \<Rightarrow> json" where
  "get_by_path doc path = walk doc (path_parts path)"

text \<open>
  \<^verbatim>\<open>_get_by_path\<close> returns a reference into the tree, and the callers mutate the
  object it refers to.  On a tree without sharing (what \<^verbatim>\<open>json.load\<close> and
  \<^verbatim>\<open>deepcopy\<close> of it give) that is the replacement of the value at the path.
\<close>

fun modify_at :: "string list \<Rightarrow> (json \<Rightarrow> json) \<Rightarrow> json \<Rightarrow> json" where
  "modify_at [] f cur = f cur"
| "modify_at (p # ps) f cur =
     (case cur of
        JObj kvs \<Rightarrow>
          (case map_of kvs p of
             Some v \<Rightarrow> JObj (AList.update p (modify_at ps f v) kvs)
           | None \<Rightarrow> cur)
      | _ \<Rightarrow> cur)"

section \<open>issuer.py\<close>

definition update_section_proof :: "json \<Rightarrow> string \<Rightarrow> string \<Rightarrow> error + json" where
  "update_section_proof section section_hash signature =
     (case dict_get section ''sProof'' JNull of
        Inl e \<Rightarrow> Inl e
      | Inr proof \<Rightarrow>
          if is_dict proof then
            let p1 = (if has_key ''type'' proof
                      then dict_set ''type'' (JStr ''Eip712Signature2023'') proof else proof);
                p2 = (if has_key ''sectionHash'' p1
                      then dict_set ''sectionHash'' (JStr section_hash) p1 else p1);
                p3 = (if has_key ''proofValue'' p2
                      then dict_set ''proofValue'' (JStr signature) p2 else p2)
            in Inr (dict_set ''sProof'' p3 section)
          else Inr section)"

definition update_top_proof :: "json \<Rightarrow> string \<Rightarrow> error + json" where
  "update_top_proof doc signature =
     (case dict_get doc ''proof'' JNull of
        Inl e \<Rightarrow> Inl e
      | Inr proof \<Rightarrow>
          if is_dict proof then
            let p1 = (if has_key ''type'' proof
                      then dict_set ''type'' (JStr ''Eip712Signature2023'') proof else proof);
                p2 = (if has_key ''proofValue'' p1
                      then dict_set ''proofValue'' (JStr signature) p1 else p1)
            in Inr (dict_set ''proof'' p2 doc)
          else Inr doc)"

definition strip_section :: "string \<Rightarrow> json \<Rightarrow> json" where
  "strip_section path doc =
     (let section = get_by_path doc path
      in if is_dict section then
           (if has_key ''sProof'' section
            then modify_at (path_parts path) (dict_pop ''sProof'') doc else doc)
         else doc)"

definition strip_existing_eip712 :: "json \<Rightarrow> json" where
  "strip_existing_eip712 vc =
     (let doc = fold strip_section SECTION_PATHS vc
      in if is_dict doc then (if has_key ''proof'' doc then dict_pop ''proof'' doc else doc)
         else doc)"

definition issuer_domain :: "env \<Rightarrow> json \<Rightarrow> string \<Rightarrow> error + eip712_domain" where
  "issuer_domain c keys_cfg verifying_contract =
     (case dict_get keys_cfg ''domain'' (JObj []) of Inl e \<Rightarrow> Inl e | Inr domain_cfg \<Rightarrow>
      case dict_get domain_cfg ''name'' (JStr ''RWA-VC'') of Inl e \<Rightarrow> Inl e | Inr n \<Rightarrow>
      case dict_get domain_cfg ''version'' (JStr ''1'') of Inl e \<Rightarrow> Inl e | Inr v \<Rightarrow>
      case dict_get domain_cfg ''chainId'' (JInt 1) of Inl e \<Rightarrow> Inl e | Inr ci \<Rightarrow>
      case py_int c ci of Inl e \<Rightarrow> Inl e | Inr i \<Rightarrow>
        Inr \<lparr>name = n, version = py_str c v, chainId = i,
             verifyingContract = JStr verifying_contract\<rparr>)"

definition section_record :: "string \<Rightarrow> string \<Rightarrow> json" where
  "section_record path section_hash =
     JObj [(''path'', JStr path), (''sectionHash'', JStr section_hash)]"

definition document_record :: "string \<Rightarrow> json" where
  "document_record doc_hash = JObj [(''path'', JStr ''/''), (''documentHash'', JStr doc_hash)]"

text \<open>The loop over the three (path, key) pairs; \<open>issued\<close> and \<open>proofs_meta\<close> are
  the two variables it mutates.\<close>

fun issue_sections ::
  "env \<Rightarrow> eip712_domain \<Rightarrow> json \<Rightarrow> (string \<times> json) list \<Rightarrow> json \<Rightarrow> json list
     \<Rightarrow> error + (json \<times> json list)" where
  "issue_sections c domain clean [] issued proofs_meta = Inr (issued, proofs_meta)"
| "issue_sections c domain clean ((path, priv) # rest) issued proofs_meta =
     (let section = get_by_path issued path
      in if \<not> is_dict section then issue_sections c domain clean rest issued proofs_meta
         else
           let section_clean = py_or (get_by_path clean path) (JObj []);
               section_hash = keccak256_json c section_clean;
               typed = build_section_typed_data domain path section_hash
           in case sign_typed_data c priv typed of
                Inl e \<Rightarrow> Inl e
              | Inr (signature, signer) \<Rightarrow>
                  (case update_section_proof section section_hash signature of
                     Inl e \<Rightarrow> Inl e
                   | Inr section' \<Rightarrow>
                       issue_sections c domain clean rest
                         (modify_at (path_parts path) (\<lambda>_. section') issued)
                         (proofs_meta @ [section_record path section_hash])))"

definition default_verifying_contract :: string where
  "default_verifying_contract = ''0x0000000000000000000000000000000000000000''"

definition issue :: "env \<Rightarrow> json \<Rightarrow> json \<Rightarrow> string \<Rightarrow> error + (json \<times> json list)" where
  "issue c vc keys_cfg verifying_contract =
     (case issuer_domain c keys_cfg verifying_contract of Inl e \<Rightarrow> Inl e | Inr domain \<Rightarrow>
      case dict_get keys_cfg ''keys'' (JObj []) of Inl e \<Rightarrow> Inl e | Inr keys \<Rightarrow>
      case dict_get keys ''identity'' JNull of Inl e \<Rightarrow> Inl e | Inr priv_identity \<Rightarrow>
      case dict_get keys ''compliance'' JNull of Inl e \<Rightarrow> Inl e | Inr priv_compliance \<Rightarrow>
      case dict_get keys ''custody'' JNull of Inl e \<Rightarrow> Inl e | Inr priv_custody \<Rightarrow>
      case dict_get keys ''document'' JNull of Inl e \<Rightarrow> Inl e | Inr priv_document \<Rightarrow>
      case issue_sections c domain (strip_existing_eip712 vc)
             [(SECTION_PATHS ! 0, priv_identity),
              (SECTION_PATHS ! 1, priv_compliance),
              (SECTION_PATHS ! 2, priv_custody)] vc []
      of Inl e \<Rightarrow> Inl e | Inr (issued, proofs_meta) \<Rightarrow>
        let doc_hash = keccak256_json c (strip_existing_eip712 issued);
            typed_doc = build_document_typed_data domain doc_hash
        in case sign_typed_data c priv_document typed_doc of
             Inl e \<Rightarrow> Inl e
           | Inr (sig_doc, signer_doc) \<Rightarrow>
               (case update_top_proof issued sig_doc of
                  Inl e \<Rightarrow> Inl e
                | Inr issued' \<Rightarrow> Inr (issued', proofs_meta @ [document_record doc_hash])))"

section \<open>verifier.py\<close>

text \<open>The verifier has its own copy of \<^verbatim>\<open>SECTION_PATHS\<close>, \<^verbatim>\<open>_get_by_path\<close>
  and of the stripping function, identical to the issuer's.\<close>

definition strip_eip712 :: "json \<Rightarrow> json" where
  "strip_eip712 vc =
     (let doc = fold strip_section SECTION_PATHS vc
      in if is_dict doc then (if has_key ''proof'' doc then dict_pop ''proof'' doc else doc)
         else doc)"

definition endswith :: "string \<Rightarrow> string \<Rightarrow> bool" where
  "endswith s suf = (length suf \<le> length s \<and> drop (length s - length suf) s = suf)"

definition role_for_path :: "string \<Rightarrow> string option" where
  "role_for_path path =
     (if endswith path ''/identity'' then Some ''identity''
      else if endswith path ''/compliance'' then Some ''compliance''
      else if endswith path ''/custody'' then Some ''custody''
      else None)"

definition default_domain_dict :: json where
  "default_domain_dict = JObj
     [(''name'', JStr ''RWA-VC''),
      (''version'', JStr ''1''),
      (''chainId'', JInt 1),
      (''verifyingContract'', JStr ''0x0000000000000000000000000000000000000000'')]"

text \<open>The domain the verifier rebuilds from a proof object (section or root).\<close>

definition verifier_domain :: "env \<Rightarrow> json \<Rightarrow> error + eip712_domain" where
  "verifier_domain c proof =
     (case dict_get proof ''domain'' default_domain_dict of Inl e \<Rightarrow> Inl e | Inr domain_dict \<Rightarrow>
      case dict_get domain_dict ''name'' (JStr ''RWA-VC'') of Inl e \<Rightarrow> Inl e | Inr n \<Rightarrow>
      case dict_get domain_dict ''version'' (JStr ''1'') of Inl e \<Rightarrow> Inl e | Inr v \<Rightarrow>
      case dict_get domain_dict ''chainId'' (JInt 1) of Inl e \<Rightarrow> Inl e | Inr ci \<Rightarrow>
      case py_int c ci of Inl e \<Rightarrow> Inl e | Inr i \<Rightarrow>
      case dict_get domain_dict ''verifyingContract''
             (JStr ''0x0000000000000000000000000000000000000000'') of
        Inl e \<Rightarrow> Inl e
      | Inr vcon \<Rightarrow>
          Inr \<lparr>name = n, version = py_str c v, chainId = i, verifyingContract = vcon\<rparr>)"

definition json_of_role :: "string option \<Rightarrow> json" where
  "json_of_role role = (case role of None \<Rightarrow> JNull | Some r \<Rightarrow> JStr r)"

text \<open>\<^verbatim>\<open>(expected_addresses or {}).get(role) if role else None\<close>\<close>

definition expected_for_role :: "json \<Rightarrow> string option \<Rightarrow> error + json" where
  "expected_for_role expected_addresses role =
     (case role of
        None \<Rightarrow> Inr JNull
      | Some r \<Rightarrow>
          if r \<noteq> [] then dict_get (py_or expected_addresses (JObj [])) r JNull
          else Inr JNull)"

text \<open>\<^verbatim>\<open>True if not expected_signer else (recovered.lower() == str(expected_signer).lower())\<close>\<close>

definition signer_matches :: "env \<Rightarrow> string \<Rightarrow> json \<Rightarrow> bool" where
  "signer_matches c recovered expected_signer =
     (if \<not> truthy expected_signer then True
      else py_lower recovered = py_lower (py_str c expected_signer))"

definition missing_sproof_result :: "string \<Rightarrow> json" where
  "missing_sproof_result path =
     JObj [(''path'', JStr path), (''ok'', JBool False), (''reason'', JStr ''missing sProof'')]"

definition missing_proof_result :: json where
  "missing_proof_result =
     JObj [(''path'', JStr ''/''), (''ok'', JBool False), (''reason'', JStr ''missing proof'')]"

text \<open>One iteration of the section loop: \<open>Inr None\<close> is \<^verbatim>\<open>continue\<close> with nothing
  appended, \<open>Inr (Some r)\<close> appends \<open>r\<close>, \<open>Inl e\<close> is an exception leaving
  \<^verbatim>\<open>verify\<close>.\<close>

definition verify_section :: "env \<Rightarrow> json \<Rightarrow> json \<Rightarrow> json \<Rightarrow> string \<Rightarrow> error + json option" where
  "verify_section c vc clean expected_addresses path =
     (let section = get_by_path vc path
      in if \<not> is_dict section then Inr None
         else
           case dict_get section ''sProof'' JNull of Inl e \<Rightarrow> Inl e | Inr proof \<Rightarrow>
           if \<not> is_dict proof then Inr (Some (missing_sproof_result path))
           else
             let section_clean = py_or (get_by_path clean path) (JObj []);
                 computed_hash = keccak256_json c section_clean
             in case verifier_domain c proof of Inl e \<Rightarrow> Inl e | Inr domain \<Rightarrow>
                let typed = build_section_typed_data domain path computed_hash
                in case dict_get proof ''proofValue'' (JStr []) of Inl e \<Rightarrow> Inl e | Inr signature \<Rightarrow>
                   case recover_typed_data_signer c typed signature of Inl e \<Rightarrow> Inl e | Inr recovered \<Rightarrow>
                   case dict_get proof ''sectionHash'' JNull of Inl e \<Rightarrow> Inl e | Inr expected_hash \<Rightarrow>
                   let hash_ok = (JStr computed_hash = expected_hash);
                       role = role_for_path path
                   in case expected_for_role expected_addresses role of Inl e \<Rightarrow> Inl e | Inr expected_from_keys \<Rightarrow>
                      case dict_get proof ''signer'' JNull of Inl e \<Rightarrow> Inl e | Inr signer_field \<Rightarrow>
                      let expected_signer = py_or signer_field expected_from_keys;
                          addr_ok = signer_matches c recovered expected_signer
                      in case dict_get proof ''type'' JNull of Inl e \<Rightarrow> Inl e | Inr ty \<Rightarrow>
                         let type_ok = (ty = JStr ''Eip712Signature2023'')
                         in Inr (Some (JObj
                              [(''path'', JStr path),
                               (''ok'', JBool (hash_ok \<and> addr_ok \<and> type_ok)),
                               (''hash_ok'', JBool hash_ok),
                               (''addr_ok'', JBool addr_ok),
                               (''type_ok'', JBool type_ok),
                               (''recovered'', JStr recovered),
                               (''expected_signer'', expected_signer),
                               (''role'', json_of_role role)])))"

fun verify_sections ::
  "env \<Rightarrow> json \<Rightarrow> json \<Rightarrow> json \<Rightarrow> string list \<Rightarrow> json list \<Rightarrow> error + json list" where
  "verify_sections c vc clean expected_addresses [] results = Inr results"
| "verify_sections c vc clean expected_addresses (path # rest) results =
     (case verify_section c vc clean expected_addresses path of
        Inl e \<Rightarrow> Inl e
      | Inr None \<Rightarrow> verify_sections c vc clean expected_addresses rest results
      | Inr (Some r) \<Rightarrow> verify_sections c vc clean expected_addresses rest (results @ [r]))"

text \<open>The document part of \<^verbatim>\<open>verify\<close>, after the section loop.\<close>

definition verify_document :: "env \<Rightarrow> json \<Rightarrow> json \<Rightarrow> json list \<Rightarrow> error + json list" where
  "verify_document c vc expected_addresses results =
     (case dict_get vc ''proof'' JNull of Inl e \<Rightarrow> Inl e | Inr proof_doc \<Rightarrow>
      if \<not> is_dict proof_doc then Inr (results @ [missing_proof_result])
      else
        let clean_doc = strip_eip712 vc;
            computed_doc_hash = keccak256_json c clean_doc
        in case verifier_domain c proof_doc of Inl e \<Rightarrow> Inl e | Inr domain \<Rightarrow>
           let typed_doc = build_document_typed_data domain computed_doc_hash
           in case dict_get proof_doc ''proofValue'' (JStr []) of Inl e \<Rightarrow> Inl e | Inr signature \<Rightarrow>
              case recover_typed_data_signer c typed_doc signature of Inl e \<Rightarrow> Inl e | Inr recovered_doc \<Rightarrow>
              case dict_get (py_or expected_addresses (JObj [])) ''document'' JNull of
                Inl e \<Rightarrow> Inl e
              | Inr expected_from_keys \<Rightarrow>
              case dict_get proof_doc ''signer'' JNull of Inl e \<Rightarrow> Inl e | Inr signer_field \<Rightarrow>
              let expected_doc = py_or signer_field expected_from_keys;
                  ok_doc = (if truthy expected_doc
                            then py_lower recovered_doc = py_lower (py_str c expected_doc)
                            else True)
              in case dict_get proof_doc ''type'' JNull of Inl e \<Rightarrow> Inl e | Inr ty \<Rightarrow>
                 Inr (results @
                   [JObj [(''path'', JStr ''/''),
                          (''ok'', JBool (ok_doc \<and> ty = JStr ''Eip712Signature2023'')),
                          (''recovered'', JStr recovered_doc),
                          (''expected'', expected_doc)]]))"

definition verify :: "env \<Rightarrow> json \<Rightarrow> json \<Rightarrow> error + json list" where
  "verify c vc expected_addresses =
     (case verify_sections c vc (strip_eip712 vc) expected_addresses SECTION_PATHS [] of
        Inl e \<Rightarrow> Inl e
      | Inr results \<Rightarrow> verify_document c vc expected_addresses results)"

section \<open>Observations, test doubles and scenario data\<close>

definition strip_at :: "string \<Rightarrow> json \<Rightarrow> json" where
  "strip_at x = modify_at [''credentialSubject'', x] (dict_pop ''sProof'')"

definition section_keys :: "string set" where
  "section_keys = {''identity'', ''compliance'', ''custody''}"

definition section_key :: "string \<Rightarrow> string" where
  "section_key p = last (path_parts p)"

definition section_items :: "json \<Rightarrow> json \<Rightarrow> json \<Rightarrow> (string \<times> json) list" where
  "section_items pi pc pu =
     [(SECTION_PATHS ! 0, pi), (SECTION_PATHS ! 1, pc), (SECTION_PATHS ! 2, pu)]"

definition test_from_key :: "json \<Rightarrow> account option" where
  "test_from_key k =
     (case k of
        JStr s \<Rightarrow>
          if s \<noteq> [] \<and> CHR ''|'' \<notin> set s
          then Some \<lparr>acct_key = s, acct_address = ''0xAddr-'' @ s\<rparr> else None
      | _ \<Rightarrow> None)"

definition test_recover :: "string \<Rightarrow> json \<Rightarrow> string option" where
  "test_recover encoded sg =
     (case sg of
        JStr s \<Rightarrow>
          (let k = takeWhile (\<lambda>x. x \<noteq> CHR ''|'') s;
               rest = dropWhile (\<lambda>x. x \<noteq> CHR ''|'') s
           in if k = [] \<or> rest = [] then None
              else if tl rest = encoded then Some (''0xAddr-'' @ k)
              else Some (''0xOther-'' @ k))
      | _ \<Rightarrow> None)"

definition test_int_of_str :: "string \<Rightarrow> int option" where
  "test_int_of_str s =
     (if s \<noteq> [] \<and> list_all (\<lambda>ch. 48 \<le> (of_char ch :: nat) \<and> (of_char ch :: nat) \<le> 57) s
      then Some (foldl (\<lambda>acc ch. 10 * acc + (int (of_char ch) - 48)) 0 s) else None)"

definition test_env :: env where
  "test_env =
     \<lparr>keccak_hex = (\<lambda>s. ''0x'' @ s),
      from_key = test_from_key,
      encode_typed_data = (\<lambda>t. Some (to_canonical_json t)),
      sign_message = (\<lambda>encoded key. key @ ''|'' @ encoded),
      recover_message = test_recover,
      py_repr = to_canonical_json,
      int_of_str = test_int_of_str\<rparr>"

definition proof_template :: json where
  "proof_template = JObj [(''type'', JStr ''x''), (''sectionHash'', JStr []), (''proofValue'', JStr [])]"

definition scenario_doc :: json where
  "scenario_doc = JObj
     [(''credentialSubject'', JObj
         [(''identity'', JObj [(''a'', JInt 1), (''sProof'', proof_template)]),
          (''custody'', JObj [(''b'', JInt 2), (''sProof'', proof_template)])]),
      (''proof'', proof_template)]"

definition scenario_keys :: json where
  "scenario_keys = JObj
     [(''identity'', JStr ''k1''), (''compliance'', JStr ''k2''),
      (''custody'', JStr ''k3''), (''document'', JStr ''k4'')]"

definition scenario_cfg :: "string \<Rightarrow> json" where
  "scenario_cfg domain_name = JObj
     [(''domain'', JObj [(''name'', JStr domain_name), (''version'', JStr ''1''), (''chainId'', JInt 1)]),
      (''keys'', scenario_keys)]"

definition scenario_expected :: json where
  "scenario_expected = JObj
     [(''identity'', JStr ''0xAddr-k1''), (''compliance'', JStr ''0xAddr-k2''),
      (''custody'', JStr ''0xAddr-k3''), (''document'', JStr ''0xAddr-k4'')]"

definition document_key :: "json \<Rightarrow> json" where
  "document_key keys_cfg =
     (case dict_get keys_cfg ''keys'' (JObj []) of
        Inl _ \<Rightarrow> JNull
      | Inr keys \<Rightarrow> (case dict_get keys ''document'' JNull of Inl _ \<Rightarrow> JNull | Inr k \<Rightarrow> k))"

definition root_proof :: "json \<Rightarrow> json" where
  "root_proof doc = (case dict_get doc ''proof'' JNull of Inl _ \<Rightarrow> JNull | Inr p \<Rightarrow> p)"

definition proof_field :: "json \<Rightarrow> string \<Rightarrow> json" where
  "proof_field p k = (case dict_get p k JNull of Inl _ \<Rightarrow> JNull | Inr v \<Rightarrow> v)"



definition section_proof :: "json \<Rightarrow> string \<Rightarrow> json" where
  "section_proof doc path = proof_field (get_by_path doc path) ''sProof''"

definition proof_keys :: "json \<Rightarrow> string list" where
  "proof_keys p = (case p of JObj kvs \<Rightarrow> map fst kvs | _ \<Rightarrow> [])"

definition other_fields :: "string list \<Rightarrow> json \<Rightarrow> json" where
  "other_fields ks p =
     (case p of JObj kvs \<Rightarrow> JObj (filter (\<lambda>kv. fst kv \<notin> set ks) kvs) | _ \<Rightarrow> p)"

definition stale_proof :: json where
  "stale_proof = JObj
     [(''type'', JStr ''Eip712Signature2023''), (''sectionHash'', JStr ''0xstale''),
      (''proofValue'', JStr ''junk'')]"

definition scenario_doc_stale :: json where
  "scenario_doc_stale = JObj
     [(''credentialSubject'', JObj
         [(''identity'', JObj [(''a'', JInt 1), (''sProof'', stale_proof)]),
          (''custody'', JObj [(''b'', JInt 2), (''sProof'', stale_proof)])]),
      (''proof'', stale_proof)]"

definition scenario_cfg_other_section_keys :: json where
  "scenario_cfg_other_section_keys = JObj
     [(''domain'', JObj [(''name'', JStr ''RWA-VC''), (''version'', JStr ''1''), (''chainId'', JInt 1)]),
      (''keys'', JObj
         [(''identity'', JStr ''j1''), (''compliance'', JStr ''j2''),
          (''custody'', JStr ''j3''), (''document'', JStr ''k4'')])]"

definition scenario_stripped :: json where
  "scenario_stripped = JObj
     [(''credentialSubject'', JObj
         [(''identity'', JObj [(''a'', JInt 1)]),
          (''custody'', JObj [(''b'', JInt 2)])])]"

definition default_domain :: eip712_domain where
  "default_domain =
     \<lparr>name = JStr ''RWA-VC'', version = ''1'', chainId = 1,
      verifyingContract = JStr default_verifying_contract\<rparr>"

definition same_section_schema :: "json \<Rightarrow> json \<Rightarrow> string \<Rightarrow> bool" where
  "same_section_schema issued vc path =
     (proof_keys (section_proof issued path) = proof_keys (section_proof vc path) \<and>
      other_fields [''type'', ''sectionHash'', ''proofValue''] (section_proof issued path)
        = other_fields [''type'', ''sectionHash'', ''proofValue''] (section_proof vc path))"

definition scenario_doc_partial :: json where
  "scenario_doc_partial = JObj
     [(''credentialSubject'', JObj
         [(''identity'', JObj
            [(''a'', JInt 1), (''sProof'', JObj [(''type'', JStr ''x''), (''note'', JInt 7)])]),
          (''custody'', JObj [(''b'', JInt 2), (''sProof'', JStr ''n/a'')])]),
      (''proof'', JObj [(''created'', JStr ''2024''), (''proofValue'', JStr [])])]"

definition doc_missing_proofs :: json where
  "doc_missing_proofs = JObj
     [(''credentialSubject'', JObj [(''identity'', JObj [(''a'', JInt 1)])])]"

definition claimed_missing_result :: "string \<Rightarrow> json" where
  "claimed_missing_result path =
     JObj [(''path'', JStr path), (''ok'', JBool False), (''reason'', JStr ''missing proof'')]"

definition doc_no_proof_value :: json where
  "doc_no_proof_value = JObj
     [(''credentialSubject'', JObj
         [(''identity'', JObj
            [(''a'', JInt 1),
             (''sProof'', JObj
                [(''type'', JStr ''Eip712Signature2023''),
                 (''sectionHash'', JStr ''0x{\"a\":1}'')])])]),
      (''proof'', JObj [(''type'', JStr ''Eip712Signature2023''), (''proofValue'', JStr ''k4|x'')])]"

definition doc_bad_domain :: json where
  "doc_bad_domain = JObj
     [(''credentialSubject'', JObj
         [(''identity'', JObj
            [(''a'', JInt 1),
             (''sProof'', JObj
                [(''type'', JStr ''Eip712Signature2023''),
                 (''sectionHash'', JStr ''0x{\"a\":1}''),
                 (''proofValue'', JStr ''k1|x''),
                 (''domain'', JStr ''RWA-VC'')])])])]"

definition doc_unsigned_root :: json where
  "doc_unsigned_root = JObj
     [(''credentialSubject'', JObj [(''identity'', JObj [(''a'', JInt 1)])]),
      (''proof'', JObj [(''type'', JStr ''Eip712Signature2023''), (''proofValue'', JStr ''anyone|anything'')])]"

definition doc_unsigned_root_wrong_type :: json where
  "doc_unsigned_root_wrong_type = JObj
     [(''credentialSubject'', JObj [(''identity'', JObj [(''a'', JInt 1)])]),
      (''proof'', JObj [(''type'', JStr ''x''), (''proofValue'', JStr ''anyone|anything'')])]"






section \<open>Lemmas\<close>

lemma section_parts:
  "path_parts ''/credentialSubject/identity'' = [''credentialSubject'', ''identity'']"
  "path_parts ''/credentialSubject/compliance'' = [''credentialSubject'', ''compliance'']"
  "path_parts ''/credentialSubject/custody'' = [''credentialSubject'', ''custody'']"
  by (simp_all add: path_parts_def)

lemma is_dict_simps [simp]:
  "is_dict (JObj kvs)" "\<not> is_dict JNull" "\<not> is_dict (JBool b)" "\<not> is_dict (JInt i)"
  "\<not> is_dict (JStr s)" "\<not> is_dict (JArr xs)"
  by (simp_all add: is_dict_def)

lemma is_dictE: "is_dict j \<Longrightarrow> (\<And>kvs. j = JObj kvs \<Longrightarrow> P) \<Longrightarrow> P"
  by (cases j) simp_all

lemma walk_JNull [simp]: "ps \<noteq> [] \<Longrightarrow> walk JNull ps = JNull"
  by (cases ps) simp_all

lemma modify_at_id: "f (walk d ps) = walk d ps \<Longrightarrow> modify_at ps f d = d"
proof (induction ps arbitrary: d)
  case Nil
  then show ?case by simp
next
  case (Cons p ps)
  show ?case
  proof (cases d)
    case (JObj kvs)
    show ?thesis
    proof (cases "map_of kvs p")
      case None
      with JObj show ?thesis by simp
    next
      case (Some v)
      with Cons.prems JObj have "f (walk v ps) = walk v ps" by simp
      then have "modify_at ps f v = v" by (rule Cons.IH)
      with JObj Some show ?thesis by (simp add: update_triv)
    qed
  qed simp_all
qed

lemma walk_modify_same:
  "is_dict (walk d ps) \<or> f JNull = JNull \<Longrightarrow> walk (modify_at ps f d) ps = f (walk d ps)"
proof (induction ps arbitrary: d)
  case Nil
  then show ?case by simp
next
  case (Cons p ps)
  show ?case
  proof (cases d)
    case (JObj kvs)
    show ?thesis
    proof (cases "map_of kvs p")
      case None
      with JObj Cons.prems show ?thesis by auto
    next
      case (Some v)
      with Cons.prems JObj have "is_dict (walk v ps) \<or> f JNull = JNull" by simp
      then have "walk (modify_at ps f v) ps = f (walk v ps)" by (rule Cons.IH)
      with JObj Some show ?thesis by (simp add: update_conv')
    qed
  qed (use Cons.prems in auto)
qed

lemma walk_modify_other:
  "x \<noteq> y \<Longrightarrow> walk (modify_at [a, x] f d) [a, y] = walk d [a, y]"
  by (auto simp: update_conv' split: json.splits option.splits)

lemma modify_at_cong:
  "f (walk d ps) = g (walk d ps) \<Longrightarrow> modify_at ps f d = modify_at ps g d"
proof (induction ps arbitrary: d)
  case Nil
  then show ?case by simp
next
  case (Cons p ps)
  show ?case
  proof (cases d)
    case (JObj kvs)
    show ?thesis
    proof (cases "map_of kvs p")
      case None
      with JObj show ?thesis by simp
    next
      case (Some v)
      with Cons.prems JObj have "f (walk v ps) = g (walk v ps)" by simp
      then have "modify_at ps f v = modify_at ps g v" by (rule Cons.IH)
      with JObj Some show ?thesis by simp
    qed
  qed simp_all
qed

lemma update_update_same: "AList.update k v (AList.update k w al) = AList.update k v al"
  by (induction al) auto

lemma modify_at_comp:
  "modify_at ps f (modify_at ps g d) = modify_at ps (\<lambda>x. f (g x)) d"
proof (induction ps arbitrary: d)
  case Nil
  then show ?case by simp
next
  case (Cons p ps)
  show ?case
  proof (cases d)
    case (JObj kvs)
    show ?thesis
    proof (cases "map_of kvs p")
      case None
      with JObj show ?thesis by simp
    next
      case (Some v)
      with JObj Cons.IH [of v] show ?thesis by (simp add: update_conv' update_update_same)
    qed
  qed simp_all
qed

lemma update_swap_present:
  "k \<noteq> k' \<Longrightarrow> k \<in> fst ` set al \<Longrightarrow>
     AList.update k v (AList.update k' v' al) = AList.update k' v' (AList.update k v al)"
  by (induction al) (auto simp: image_iff)

lemma modify_inner_swap:
  "x \<noteq> y \<Longrightarrow>
     modify_at [x] f (modify_at [y] g d) = modify_at [y] g (modify_at [x] f d)"
proof (cases d)
  case (JObj kvs)
  assume xy: "x \<noteq> y"
  show ?thesis
  proof (cases "map_of kvs x")
    case None
    with JObj xy show ?thesis by (simp add: update_conv' split: option.splits)
  next
    case (Some v)
    then have "x \<in> fst ` set kvs" by (metis map_of_eq_None_iff option.distinct(1))
    then have "AList.update x v' (AList.update y w' kvs) = AList.update y w' (AList.update x v' kvs)"
      for v' w' using xy by (simp add: update_swap_present [of x y])
    with JObj xy Some show ?thesis
      by (auto simp: update_conv' split: option.splits)
  qed
qed simp_all

lemma modify_at_Cons:
  "modify_at (a # ps) f d = modify_at [a] (modify_at ps f) d"
  by (simp split: json.splits option.splits)

lemma modify_at_swap:
  assumes "x \<noteq> y"
  shows "modify_at [a, x] f (modify_at [a, y] g d) = modify_at [a, y] g (modify_at [a, x] f d)"
proof -
  have "modify_at [a, x] f (modify_at [a, y] g d)
        = modify_at [a] (\<lambda>v. modify_at [x] f (modify_at [y] g v)) d"
    by (simp only: modify_at_Cons [of a "[x]"] modify_at_Cons [of a "[y]"] modify_at_comp)
  also have "\<dots> = modify_at [a] (\<lambda>v. modify_at [y] g (modify_at [x] f v)) d"
    by (simp only: modify_inner_swap [OF assms])
  also have "\<dots> = modify_at [a, y] g (modify_at [a, x] f d)"
    by (simp only: modify_at_Cons [of a "[x]"] modify_at_Cons [of a "[y]"] modify_at_comp)
  finally show ?thesis .
qed

lemmas modify_at_simps = modify_at.simps
lemmas walk_simps = walk.simps
declare modify_at.simps [simp del] walk.simps [simp del]

lemma dict_pop_simps [simp]:
  "dict_pop k (JObj kvs) = JObj (AList.delete k kvs)"
  "dict_pop k JNull = JNull"
  by (simp_all add: dict_pop_def)

lemma dict_pop_not_dict: "\<not> is_dict j \<Longrightarrow> dict_pop k j = j"
  by (cases j) (simp_all add: dict_pop_def)

lemma dict_pop_no_key: "\<not> has_key k j \<Longrightarrow> dict_pop k j = j"
  by (cases j) (simp_all add: dict_pop_def has_key_def)

lemma is_dict_dict_pop [simp]: "is_dict (dict_pop k j) = is_dict j"
  by (cases j) (simp_all add: dict_pop_def)

lemma is_dict_dict_set [simp]: "is_dict (dict_set k v j) = is_dict j"
  by (cases j) (simp_all add: dict_set_def)

lemma dict_pop_dict_set: "dict_pop k (dict_set k v j) = dict_pop k j"
  by (cases j) (simp_all add: dict_pop_def dict_set_def delete_update_same)

lemma strip_section_eq:
  "strip_section path d = modify_at (path_parts path) (dict_pop ''sProof'') d"
  unfolding strip_section_def Let_def get_by_path_def
  by (auto simp: modify_at_id dict_pop_not_dict dict_pop_no_key)

lemma pop_proof_eq:
  "(if is_dict d then (if has_key ''proof'' d then dict_pop ''proof'' d else d) else d)
     = dict_pop ''proof'' d"
  by (auto simp: dict_pop_not_dict dict_pop_no_key)

lemma strip_normal:
  "strip_existing_eip712 d =
     dict_pop ''proof'' (strip_at ''custody'' (strip_at ''compliance'' (strip_at ''identity'' d)))"
  unfolding strip_existing_eip712_def Let_def pop_proof_eq
  by (simp add: SECTION_PATHS_def strip_section_eq section_parts strip_at_def)

lemma strip_eip712_eq: "strip_eip712 d = strip_existing_eip712 d"
  by (simp add: strip_eip712_def strip_existing_eip712_def)

lemma walk_pop_proof:
  "walk (dict_pop ''proof'' d) [''credentialSubject'', x] = walk d [''credentialSubject'', x]"
  by (cases d) (simp_all add: dict_pop_def walk_simps)

lemma walk_strip_at_same:
  "walk (strip_at x d) [''credentialSubject'', x] = dict_pop ''sProof'' (walk d [''credentialSubject'', x])"
  unfolding strip_at_def by (rule walk_modify_same) simp

lemma walk_strip_at_other:
  "x \<noteq> y \<Longrightarrow> walk (strip_at x d) [''credentialSubject'', y] = walk d [''credentialSubject'', y]"
  unfolding strip_at_def by (rule walk_modify_other)

lemma walk_strip:
  assumes "x \<in> section_keys"
  shows "walk (strip_existing_eip712 d) [''credentialSubject'', x]
           = dict_pop ''sProof'' (walk d [''credentialSubject'', x])"
  using assms unfolding section_keys_def strip_normal walk_pop_proof
  by (auto simp: walk_strip_at_same walk_strip_at_other)

lemma section_path_cases:
  assumes "p \<in> set SECTION_PATHS"
  obtains "p = ''/credentialSubject/identity''"
    | "p = ''/credentialSubject/compliance''"
    | "p = ''/credentialSubject/custody''"
proof -
  from assms have "p = ''/credentialSubject/identity'' \<or> p = ''/credentialSubject/compliance''
      \<or> p = ''/credentialSubject/custody''"
    unfolding SECTION_PATHS_def by simp
  with that show ?thesis by blast
qed

lemma section_key_simps:
  "section_key ''/credentialSubject/identity'' = ''identity''"
  "section_key ''/credentialSubject/compliance'' = ''compliance''"
  "section_key ''/credentialSubject/custody'' = ''custody''"
  by (simp_all only: section_key_def section_parts last.simps list.simps if_True if_False simp_thms)

lemma section_path_parts':
  assumes "p \<in> set SECTION_PATHS"
  shows "section_key p \<in> section_keys \<and> path_parts p = [''credentialSubject'', section_key p]"
  using assms
proof (cases rule: section_path_cases)
  case 1
  show ?thesis unfolding 1 section_key_simps section_parts section_keys_def by simp
next
  case 2
  show ?thesis unfolding 2 section_key_simps section_parts section_keys_def by simp
next
  case 3
  show ?thesis unfolding 3 section_key_simps section_parts section_keys_def by simp
qed

lemma section_path_parts:
  assumes "p \<in> set SECTION_PATHS"
  obtains x where "x \<in> section_keys" "path_parts p = [''credentialSubject'', x]"
  using section_path_parts' [OF assms] that by blast

lemma section_key_inj:
  assumes "p \<in> set SECTION_PATHS" "q \<in> set SECTION_PATHS" "section_key p = section_key q"
  shows "p = q"
proof -
  have ne: "''identity'' \<noteq> ''compliance''" "''identity'' \<noteq> ''custody''"
    "''compliance'' \<noteq> ''custody''" by simp_all
  from assms(1) show ?thesis
  proof (cases rule: section_path_cases)
    case p: 1
    from assms(2) show ?thesis
    proof (cases rule: section_path_cases)
      case 1 with p show ?thesis by (simp only:)
    next
      case 2 with p assms(3) ne show ?thesis by (simp only: section_key_simps)
    next
      case 3 with p assms(3) ne show ?thesis by (simp only: section_key_simps)
    qed
  next
    case p: 2
    from assms(2) show ?thesis
    proof (cases rule: section_path_cases)
      case 1 with p assms(3) ne show ?thesis by (simp only: section_key_simps)
    next
      case 2 with p show ?thesis by (simp only:)
    next
      case 3 with p assms(3) ne show ?thesis by (simp only: section_key_simps)
    qed
  next
    case p: 3
    from assms(2) show ?thesis
    proof (cases rule: section_path_cases)
      case 1 with p assms(3) ne show ?thesis by (simp only: section_key_simps)
    next
      case 2 with p assms(3) ne show ?thesis by (simp only: section_key_simps)
    next
      case 3 with p show ?thesis by (simp only:)
    qed
  qed
qed

lemma section_path_parts_inj:
  assumes "p \<in> set SECTION_PATHS" "q \<in> set SECTION_PATHS" "path_parts p = path_parts q"
  shows "p = q"
  by (rule section_key_inj [OF assms(1,2)]) (simp add: section_key_def assms(3))

lemma get_by_path_strip:
  assumes "p \<in> set SECTION_PATHS"
  shows "get_by_path (strip_existing_eip712 d) p = dict_pop ''sProof'' (get_by_path d p)"
proof -
  from assms obtain x where "x \<in> section_keys" "path_parts p = [''credentialSubject'', x]"
    by (rule section_path_parts)
  then show ?thesis by (simp add: get_by_path_def walk_strip)
qed

lemma strip_at_absorb:
  assumes "dict_pop ''sProof'' (h (walk d [''credentialSubject'', x]))
             = dict_pop ''sProof'' (walk d [''credentialSubject'', x])"
  shows "strip_at x (modify_at [''credentialSubject'', x] h d) = strip_at x d"
  unfolding strip_at_def modify_at_comp using assms by (intro modify_at_cong)

lemma strip_at_swap:
  "x \<noteq> y \<Longrightarrow> strip_at x (modify_at [''credentialSubject'', y] h d)
     = modify_at [''credentialSubject'', y] h (strip_at x d)"
  unfolding strip_at_def by (rule modify_at_swap)

lemma strip_modify_section:
  assumes "x \<in> section_keys"
    and "dict_pop ''sProof'' (h (walk d [''credentialSubject'', x]))
             = dict_pop ''sProof'' (walk d [''credentialSubject'', x])"
  shows "strip_existing_eip712 (modify_at [''credentialSubject'', x] h d) = strip_existing_eip712 d"
proof -
  from assms(1) consider "x = ''identity''" | "x = ''compliance''" | "x = ''custody''"
    by (auto simp: section_keys_def)
  then show ?thesis
  proof cases
    case 1
    with assms(2) show ?thesis by (simp add: strip_normal strip_at_absorb)
  next
    case 2
    with assms(2) show ?thesis
      by (simp add: strip_normal strip_at_swap strip_at_absorb walk_strip_at_other)
  next
    case 3
    with assms(2) show ?thesis
      by (simp add: strip_normal strip_at_swap strip_at_absorb walk_strip_at_other)
  qed
qed

lemma modify_at_dict_set:
  "a \<noteq> k \<Longrightarrow> modify_at (a # ps) f (dict_set k v d) = dict_set k v (modify_at (a # ps) f d)"
proof (cases d)
  case (JObj kvs)
  assume ak: "a \<noteq> k"
  show ?thesis
  proof (cases "map_of kvs a")
    case None
    with JObj ak show ?thesis by (simp add: dict_set_def update_conv' modify_at_simps)
  next
    case (Some w)
    then have "a \<in> fst ` set kvs" by (metis map_of_eq_None_iff option.distinct(1))
    then have "AList.update a v' (AList.update k v kvs) = AList.update k v (AList.update a v' kvs)"
      for v' using ak by (simp add: update_swap_present [of a k])
    with JObj ak Some show ?thesis by (simp add: dict_set_def update_conv' modify_at_simps)
  qed
qed (simp_all add: dict_set_def modify_at_simps)

lemma strip_dict_set_proof:
  "strip_existing_eip712 (dict_set ''proof'' v d) = strip_existing_eip712 d"
  by (simp add: strip_normal strip_at_def modify_at_dict_set dict_pop_dict_set)

lemma is_dict_modify_at [simp]: "is_dict (modify_at (a # ps) f d) = is_dict d"
  by (cases d) (simp_all add: modify_at_simps split: option.splits)

lemma dict_get_JObj [simp]:
  "dict_get (JObj kvs) k dflt = Inr (case map_of kvs k of None \<Rightarrow> dflt | Some v \<Rightarrow> v)"
  by (simp add: dict_get_def split: option.splits)

lemma dict_get_is_dict: "is_dict j \<Longrightarrow> \<exists>v. dict_get j k dflt = Inr v"
  by (cases j) simp_all

lemma dict_get_Inr_is_dict: "dict_get j k dflt = Inr v \<Longrightarrow> is_dict j"
  by (cases j) (simp_all add: dict_get_def)

lemma update_section_proof_dict:
  assumes "is_dict section"
  obtains s' where "update_section_proof section h sg = Inr s'" "is_dict s'"
    "dict_pop ''sProof'' s' = dict_pop ''sProof'' section"
proof -
  from assms obtain kvs where s: "section = JObj kvs" by (rule is_dictE)
  show ?thesis
  proof (cases "is_dict (case map_of kvs ''sProof'' of None \<Rightarrow> JNull | Some v \<Rightarrow> v)")
    case True
    then show ?thesis using s that
      by (simp add: update_section_proof_def Let_def dict_pop_dict_set del: dict_pop_simps)
  next
    case False
    then show ?thesis using s that by (simp add: update_section_proof_def)
  qed
qed

lemma section_step:
  assumes p: "p \<in> set SECTION_PATHS"
    and d: "is_dict (get_by_path a p)"
    and u: "update_section_proof (get_by_path a p) h sg = Inr s'"
  shows "strip_existing_eip712 (modify_at (path_parts p) (\<lambda>_. s') a) = strip_existing_eip712 a"
    and "is_dict (modify_at (path_parts p) (\<lambda>_. s') a) = is_dict a"
    and "get_by_path (modify_at (path_parts p) (\<lambda>_. s') a) p = s'"
    and "\<And>q. q \<in> set SECTION_PATHS \<Longrightarrow> q \<noteq> p \<Longrightarrow>
           get_by_path (modify_at (path_parts p) (\<lambda>_. s') a) q = get_by_path a q"
    and "is_dict s'"
proof -
  from p obtain x where x: "x \<in> section_keys" "path_parts p = [''credentialSubject'', x]"
    by (rule section_path_parts)
  from d obtain t where t: "update_section_proof (get_by_path a p) h sg = Inr t" "is_dict t"
    "dict_pop ''sProof'' t = dict_pop ''sProof'' (get_by_path a p)"
    by (rule update_section_proof_dict)
  with u have s': "is_dict s'" "dict_pop ''sProof'' s' = dict_pop ''sProof'' (get_by_path a p)"
    by simp_all
  show "is_dict s'" by fact
  show "strip_existing_eip712 (modify_at (path_parts p) (\<lambda>_. s') a) = strip_existing_eip712 a"
    using x s' by (simp add: strip_modify_section get_by_path_def)
  show "is_dict (modify_at (path_parts p) (\<lambda>_. s') a) = is_dict a"
    using x by simp
  show "get_by_path (modify_at (path_parts p) (\<lambda>_. s') a) p = s'"
    using d by (simp add: get_by_path_def walk_modify_same)
  show "get_by_path (modify_at (path_parts p) (\<lambda>_. s') a) q = get_by_path a q"
    if q: "q \<in> set SECTION_PATHS" "q \<noteq> p" for q
  proof -
    from q(1) obtain y where y: "y \<in> section_keys" "path_parts q = [''credentialSubject'', y]"
      by (rule section_path_parts)
    with x q p have "x \<noteq> y" by (auto dest: section_path_parts_inj)
    with x y show ?thesis by (simp add: get_by_path_def walk_modify_other)
  qed
qed

lemma section_step_dictness:
  assumes "p \<in> set SECTION_PATHS" "is_dict (get_by_path a p)"
    "update_section_proof (get_by_path a p) h sg = Inr s'" "q \<in> set SECTION_PATHS"
  shows "is_dict (get_by_path (modify_at (path_parts p) (\<lambda>_. s') a) q) = is_dict (get_by_path a q)"
  using section_step(3,4,5) [OF assms(1,2,3)] assms(2,4) by (cases "q = p") auto

lemma issue_sections_Cons:
  "issue_sections c dm clean ((path, priv) # rest) issued m =
     (if \<not> is_dict (get_by_path issued path) then issue_sections c dm clean rest issued m
      else case sign_typed_data c priv (build_section_typed_data dm path
                  (keccak256_json c (py_or (get_by_path clean path) (JObj [])))) of
             Inl e \<Rightarrow> Inl e
           | Inr sg \<Rightarrow>
               (case update_section_proof (get_by_path issued path)
                       (keccak256_json c (py_or (get_by_path clean path) (JObj []))) (fst sg) of
                  Inl e \<Rightarrow> Inl e
                | Inr s' \<Rightarrow>
                    issue_sections c dm clean rest
                      (modify_at (path_parts path) (\<lambda>_. s') issued)
                      (m @ [section_record path
                              (keccak256_json c (py_or (get_by_path clean path) (JObj [])))])))"
  by (simp add: Let_def split: sum.splits prod.splits)

lemma issue_sections_inv:
  assumes "issue_sections c dm clean items a m = Inr (a', m')"
    and "fst ` set items \<subseteq> set SECTION_PATHS"
  shows "strip_existing_eip712 a' = strip_existing_eip712 a \<and> is_dict a' = is_dict a \<and>
         (\<forall>q\<in>set SECTION_PATHS. is_dict (get_by_path a' q) = is_dict (get_by_path a q))"
  using assms
proof (induction items arbitrary: a m)
  case Nil
  then show ?case by simp
next
  case (Cons item items)
  obtain path priv where item: "item = (path, priv)" by (cases item)
  from Cons.prems(2) item have p: "path \<in> set SECTION_PATHS"
    and rest: "fst ` set items \<subseteq> set SECTION_PATHS" by auto
  show ?case
  proof (cases "is_dict (get_by_path a path)")
    case False
    with Cons.prems(1) item have "issue_sections c dm clean items a m = Inr (a', m')"
      by (simp only: issue_sections_Cons if_True simp_thms)
    then show ?thesis using rest by (rule Cons.IH)
  next
    case True
    let ?h = "keccak256_json c (py_or (get_by_path clean path) (JObj []))"
    let ?sign = "sign_typed_data c priv (build_section_typed_data dm path ?h)"
    from Cons.prems(1) item True obtain sg where sg: "?sign = Inr sg"
      by (cases ?sign) (simp_all only: issue_sections_Cons simp_thms if_False sum.case sum.distinct)
    from True obtain s' where
      u: "update_section_proof (get_by_path a path) ?h (fst sg) = Inr s'"
      by (rule update_section_proof_dict)
    from Cons.prems(1) item True sg u have
      r: "issue_sections c dm clean items (modify_at (path_parts path) (\<lambda>_. s') a)
            (m @ [section_record path ?h]) = Inr (a', m')"
      by (simp only: issue_sections_Cons simp_thms if_False sum.case)
    from r rest have ih: "strip_existing_eip712 a' = strip_existing_eip712 (modify_at (path_parts path) (\<lambda>_. s') a)
        \<and> is_dict a' = is_dict (modify_at (path_parts path) (\<lambda>_. s') a)
        \<and> (\<forall>q\<in>set SECTION_PATHS. is_dict (get_by_path a' q)
              = is_dict (get_by_path (modify_at (path_parts path) (\<lambda>_. s') a) q))"
      by (rule Cons.IH)
    with section_step(1,2) [OF p True u] section_step_dictness [OF p True u]
    show ?thesis by simp
  qed
qed

lemma issue_sections_meta_cong:
  assumes "\<forall>q\<in>set SECTION_PATHS. is_dict (get_by_path a q) = is_dict (get_by_path b q)"
    and "fst ` set items \<subseteq> set SECTION_PATHS"
  shows "map_sum id snd (issue_sections c dm clean items a m)
           = map_sum id snd (issue_sections c dm clean items b m)"
  using assms
proof (induction items arbitrary: a b m)
  case Nil
  then show ?case by simp
next
  case (Cons item items)
  obtain path priv where item: "item = (path, priv)" by (cases item)
  from Cons.prems(2) item have p: "path \<in> set SECTION_PATHS"
    and rest: "fst ` set items \<subseteq> set SECTION_PATHS" by auto
  from Cons.prems(1) p have ab: "is_dict (get_by_path a path) = is_dict (get_by_path b path)"
    by blast
  show ?case
  proof (cases "is_dict (get_by_path a path)")
    case False
    with ab item Cons.IH [OF Cons.prems(1) rest] show ?thesis
      by (simp only: issue_sections_Cons if_True simp_thms)
  next
    case True
    with ab have Tb: "is_dict (get_by_path b path)" by simp
    let ?h = "keccak256_json c (py_or (get_by_path clean path) (JObj []))"
    let ?sign = "sign_typed_data c priv (build_section_typed_data dm path ?h)"
    show ?thesis
    proof (cases ?sign)
      case (Inl e)
      with item True Tb show ?thesis by (simp only: issue_sections_Cons simp_thms if_False sum.case)
    next
      case (Inr sg)
      from True obtain sa where sa: "update_section_proof (get_by_path a path) ?h (fst sg) = Inr sa"
        by (rule update_section_proof_dict)
      from Tb obtain sb where sb: "update_section_proof (get_by_path b path) ?h (fst sg) = Inr sb"
        by (rule update_section_proof_dict)
      have "\<forall>q\<in>set SECTION_PATHS.
              is_dict (get_by_path (modify_at (path_parts path) (\<lambda>_. sa) a) q)
            = is_dict (get_by_path (modify_at (path_parts path) (\<lambda>_. sb) b) q)"
        using section_step_dictness [OF p True sa] section_step_dictness [OF p Tb sb] Cons.prems(1)
        by simp
      from Cons.IH [OF this rest] item True Tb Inr sa sb show ?thesis
        by (simp only: issue_sections_Cons simp_thms if_False sum.case)
    qed
  qed
qed

lemma section_items_paths: "fst ` set (section_items pi pc pu) \<subseteq> set SECTION_PATHS"
  by (simp add: section_items_def SECTION_PATHS_def)

lemma map_fst_section_items: "map fst (section_items pi pc pu) = SECTION_PATHS"
  by (simp add: section_items_def SECTION_PATHS_def)

lemma issue_Inr_elim:
  assumes "issue c vc cfg v = Inr (issued, meta)"
  obtains dm keys pi pc pu pd a ms sg where
    "issuer_domain c cfg v = Inr dm"
    "dict_get cfg ''keys'' (JObj []) = Inr keys"
    "dict_get keys ''identity'' JNull = Inr pi"
    "dict_get keys ''compliance'' JNull = Inr pc"
    "dict_get keys ''custody'' JNull = Inr pu"
    "dict_get keys ''document'' JNull = Inr pd"
    "issue_sections c dm (strip_existing_eip712 vc) (section_items pi pc pu) vc [] = Inr (a, ms)"
    "sign_typed_data c pd (build_document_typed_data dm
        (keccak256_json c (strip_existing_eip712 a))) = Inr sg"
    "update_top_proof a (fst sg) = Inr issued"
    "meta = ms @ [document_record (keccak256_json c (strip_existing_eip712 a))]"
proof -
  from assms obtain dm where dm: "issuer_domain c cfg v = Inr dm"
    by (cases "issuer_domain c cfg v") (simp_all add: issue_def)
  from assms dm obtain keys where keys: "dict_get cfg ''keys'' (JObj []) = Inr keys"
    by (cases "dict_get cfg ''keys'' (JObj [])") (simp_all add: issue_def)
  from assms dm keys obtain pi where pi: "dict_get keys ''identity'' JNull = Inr pi"
    by (cases "dict_get keys ''identity'' JNull") (simp_all add: issue_def)
  then have kd: "is_dict keys" by (rule dict_get_Inr_is_dict)
  then obtain pc where pc: "dict_get keys ''compliance'' JNull = Inr pc"
    using dict_get_is_dict by blast
  from kd obtain pu where pu: "dict_get keys ''custody'' JNull = Inr pu"
    using dict_get_is_dict by blast
  from kd obtain pd where pd: "dict_get keys ''document'' JNull = Inr pd"
    using dict_get_is_dict by blast
  let ?secs = "issue_sections c dm (strip_existing_eip712 vc) (section_items pi pc pu) vc []"
  from assms dm keys pi pc pu pd obtain r where r: "?secs = Inr r"
    by (cases ?secs) (simp_all add: issue_def section_items_def)
  obtain a ms where ams: "r = (a, ms)" by (cases r)
  let ?h = "keccak256_json c (strip_existing_eip712 a)"
  let ?sign = "sign_typed_data c pd (build_document_typed_data dm ?h)"
  from assms dm keys pi pc pu pd r ams obtain sg where sg: "?sign = Inr sg"
    by (cases ?sign) (simp_all add: issue_def section_items_def Let_def)
  from assms dm keys pi pc pu pd r ams sg have
    "update_top_proof a (fst sg) = Inr issued \<and> meta = ms @ [document_record ?h]"
    by (cases "update_top_proof a (fst sg)"; cases sg)
       (simp_all add: issue_def section_items_def Let_def)
  with that dm keys pi pc pu pd r ams sg show ?thesis by blast
qed

lemma issue_Inr_intro:
  assumes "issuer_domain c cfg v = Inr dm"
    "dict_get cfg ''keys'' (JObj []) = Inr keys"
    "dict_get keys ''identity'' JNull = Inr pi"
    "dict_get keys ''compliance'' JNull = Inr pc"
    "dict_get keys ''custody'' JNull = Inr pu"
    "dict_get keys ''document'' JNull = Inr pd"
    "issue_sections c dm (strip_existing_eip712 vc) (section_items pi pc pu) vc [] = Inr (a, ms)"
    "sign_typed_data c pd (build_document_typed_data dm
        (keccak256_json c (strip_existing_eip712 a))) = Inr sg"
    "update_top_proof a (fst sg) = Inr issued"
  shows "issue c vc cfg v
           = Inr (issued, ms @ [document_record (keccak256_json c (strip_existing_eip712 a))])"
  using assms by (cases sg) (simp add: issue_def section_items_def Let_def)

lemma update_top_proof_Inr:
  assumes "update_top_proof a sg = Inr b"
  shows "is_dict a" "is_dict b" "strip_existing_eip712 b = strip_existing_eip712 a"
    "\<And>q. q \<in> set SECTION_PATHS \<Longrightarrow> get_by_path b q = get_by_path a q"
proof -
  from assms show da: "is_dict a"
    by (cases "dict_get a ''proof'' JNull")
       (auto simp: update_top_proof_def dest: dict_get_Inr_is_dict)
  then obtain kvs where a: "a = JObj kvs" by (rule is_dictE)
  from assms a have b: "b = a \<or> (\<exists>p. b = dict_set ''proof'' p a)"
    by (auto simp: update_top_proof_def Let_def split: if_splits)
  with da show "is_dict b" by auto
  from b show "strip_existing_eip712 b = strip_existing_eip712 a"
    by (auto simp: strip_dict_set_proof)
  show "get_by_path b q = get_by_path a q" if "q \<in> set SECTION_PATHS" for q
  proof -
    from that obtain x where x: "path_parts q = [''credentialSubject'', x]"
      by (rule section_path_parts)
    have "walk (dict_set ''proof'' p a) [''credentialSubject'', x] = walk a [''credentialSubject'', x]"
      for p using a by (simp add: dict_set_def walk_simps update_conv')
    with b x show ?thesis by (auto simp: get_by_path_def)
  qed
qed

lemma update_top_proof_dict:
  "is_dict a \<Longrightarrow> \<exists>b. update_top_proof a sg = Inr b"
  by (erule is_dictE) (simp add: update_top_proof_def Let_def)

lemma issue_doc_hash:
  assumes "issue c vc cfg v = Inr (issued, meta)"
  shows "meta \<noteq> []"
    and "last meta = document_record (keccak256_json c (strip_existing_eip712 vc))"
    and "strip_existing_eip712 issued = strip_existing_eip712 vc"
    and "is_dict issued"
    and "\<And>q. q \<in> set SECTION_PATHS \<Longrightarrow> is_dict (get_by_path issued q) = is_dict (get_by_path vc q)"
proof -
  from assms obtain dm keys pi pc pu pd a ms sg where
    "issuer_domain c cfg v = Inr dm"
    "dict_get cfg ''keys'' (JObj []) = Inr keys"
    "dict_get keys ''identity'' JNull = Inr pi"
    "dict_get keys ''compliance'' JNull = Inr pc"
    "dict_get keys ''custody'' JNull = Inr pu"
    "dict_get keys ''document'' JNull = Inr pd"
    and secs: "issue_sections c dm (strip_existing_eip712 vc) (section_items pi pc pu) vc [] = Inr (a, ms)"
    and "sign_typed_data c pd (build_document_typed_data dm
        (keccak256_json c (strip_existing_eip712 a))) = Inr sg"
    and top: "update_top_proof a (fst sg) = Inr issued"
    and meta: "meta = ms @ [document_record (keccak256_json c (strip_existing_eip712 a))]"
    by (rule issue_Inr_elim)
  note inv = issue_sections_inv [OF secs section_items_paths]
  from meta show "meta \<noteq> []" by simp
  from meta inv show "last meta = document_record (keccak256_json c (strip_existing_eip712 vc))"
    by simp
  from update_top_proof_Inr(3) [OF top] inv
  show "strip_existing_eip712 issued = strip_existing_eip712 vc" by simp
  from update_top_proof_Inr(2) [OF top] show "is_dict issued" .
  show "is_dict (get_by_path issued q) = is_dict (get_by_path vc q)"
    if "q \<in> set SECTION_PATHS" for q
    using update_top_proof_Inr(4) [OF top that] inv that by simp
qed





lemma issue_sections_preserves:
  assumes "issue_sections c dm clean items a m = Inr (a', m')"
    and "fst ` set items \<subseteq> set SECTION_PATHS"
    and "P a"
    and step: "\<And>p b h sg s'. p \<in> set SECTION_PATHS \<Longrightarrow> is_dict (get_by_path b p) \<Longrightarrow>
           update_section_proof (get_by_path b p) h sg = Inr s' \<Longrightarrow> P b \<Longrightarrow>
           P (modify_at (path_parts p) (\<lambda>_. s') b)"
  shows "P a'"
  using assms(1,2,3)
proof (induction items arbitrary: a m)
  case Nil
  then show ?case by simp
next
  case (Cons item items)
  obtain path priv where item: "item = (path, priv)" by (cases item)
  from Cons.prems(2) item have p: "path \<in> set SECTION_PATHS"
    and rest: "fst ` set items \<subseteq> set SECTION_PATHS" by auto
  show ?case
  proof (cases "is_dict (get_by_path a path)")
    case False
    with Cons.prems(1) item have "issue_sections c dm clean items a m = Inr (a', m')"
      by (simp only: issue_sections_Cons if_True simp_thms)
    then show ?thesis using rest Cons.prems(3) by (rule Cons.IH)
  next
    case True
    let ?h = "keccak256_json c (py_or (get_by_path clean path) (JObj []))"
    let ?sign = "sign_typed_data c priv (build_section_typed_data dm path ?h)"
    from Cons.prems(1) item True obtain sg where sg: "?sign = Inr sg"
      by (cases ?sign) (simp_all only: issue_sections_Cons simp_thms if_False sum.case sum.distinct)
    from True obtain s' where
      u: "update_section_proof (get_by_path a path) ?h (fst sg) = Inr s'"
      by (rule update_section_proof_dict)
    from Cons.prems(1) item True sg u have
      r: "issue_sections c dm clean items (modify_at (path_parts path) (\<lambda>_. s') a)
            (m @ [section_record path ?h]) = Inr (a', m')"
      by (simp only: issue_sections_Cons simp_thms if_False sum.case)
    from p True u Cons.prems(3) have "P (modify_at (path_parts path) (\<lambda>_. s') a)" by (rule step)
    with r rest show ?thesis by (rule Cons.IH)
  qed
qed

lemma dict_get_modify_at_other:
  "a \<noteq> k \<Longrightarrow> dict_get (modify_at (a # ps) f d) k dflt = dict_get d k dflt"
  by (cases d) (simp_all add: modify_at_simps dict_get_def update_conv' split: option.splits)

lemma issue_sections_root_proof:
  assumes "issue_sections c dm clean items a m = Inr (a', m')"
    and "fst ` set items \<subseteq> set SECTION_PATHS"
  shows "dict_get a' ''proof'' JNull = dict_get a ''proof'' JNull"
proof (rule issue_sections_preserves [OF assms, where P = "\<lambda>b. dict_get b ''proof'' JNull = dict_get a ''proof'' JNull"])
  show "dict_get a ''proof'' JNull = dict_get a ''proof'' JNull" ..
next
  fix p b h sg s'
  assume p: "p \<in> set SECTION_PATHS" and b: "dict_get b ''proof'' JNull = dict_get a ''proof'' JNull"
  from p obtain x where "path_parts p = [''credentialSubject'', x]" by (rule section_path_parts)
  with b show "dict_get (modify_at (path_parts p) (\<lambda>_. s') b) ''proof'' JNull = dict_get a ''proof'' JNull"
    by (simp add: dict_get_modify_at_other)
qed

lemma has_key_dict_set: "has_key k (dict_set k' v p) = (has_key k p \<or> (k = k' \<and> is_dict p))"
  by (cases p) (auto simp: has_key_def dict_set_def dom_update)

lemma proof_field_dict_set_same: "is_dict p \<Longrightarrow> proof_field (dict_set k v p) k = v"
  by (erule is_dictE) (simp add: proof_field_def dict_set_def update_conv')

lemma proof_field_dict_set_other: "k \<noteq> k' \<Longrightarrow> proof_field (dict_set k' v p) k = proof_field p k"
  by (cases p) (simp_all add: proof_field_def dict_set_def update_conv')

lemma root_proof_dict_set: "is_dict a \<Longrightarrow> root_proof (dict_set ''proof'' p a) = p"
  by (erule is_dictE) (simp add: root_proof_def dict_set_def update_conv')

lemma has_key_is_dict: "has_key k p \<Longrightarrow> is_dict p"
  by (cases p) (simp_all add: has_key_def)

lemma update_top_proof_eq:
  assumes "is_dict a"
  shows "update_top_proof a sg =
     Inr (if is_dict (root_proof a) then
            dict_set ''proof''
              (let p1 = (if has_key ''type'' (root_proof a)
                         then dict_set ''type'' (JStr ''Eip712Signature2023'') (root_proof a)
                         else root_proof a)
               in if has_key ''proofValue'' p1 then dict_set ''proofValue'' (JStr sg) p1 else p1) a
          else a)"
  using assms by (elim is_dictE) (simp add: update_top_proof_def root_proof_def Let_def)

lemma update_top_proof_value:
  assumes "update_top_proof a sg = Inr b" "has_key ''proofValue'' (root_proof a)"
  shows "proof_field (root_proof b) ''proofValue'' = JStr sg"
proof -
  from assms(1) have da: "is_dict a" by (rule update_top_proof_Inr)
  from assms(2) have dp: "is_dict (root_proof a)" by (rule has_key_is_dict)
  let ?p1 = "if has_key ''type'' (root_proof a)
             then dict_set ''type'' (JStr ''Eip712Signature2023'') (root_proof a)
             else root_proof a"
  have hk: "has_key ''proofValue'' ?p1" and d1: "is_dict ?p1"
    using assms(2) dp by (simp_all add: has_key_dict_set)
  from assms(1) update_top_proof_eq [OF da, of sg] dp hk
  have b: "b = dict_set ''proof'' (dict_set ''proofValue'' (JStr sg) ?p1) a"
    by (simp add: Let_def)
  show ?thesis unfolding b root_proof_dict_set [OF da]
    using d1 by (rule proof_field_dict_set_same)
qed

lemma issue_root_signature_gen:
  assumes "issue c vc cfg v = Inr (issued, meta)"
  shows "\<exists>dm sg. issuer_domain c cfg v = Inr dm \<and>
           sign_typed_data c (document_key cfg)
             (build_document_typed_data dm (keccak256_json c (strip_existing_eip712 vc))) = Inr sg \<and>
           (has_key ''proofValue'' (root_proof vc) \<longrightarrow>
              proof_field (root_proof issued) ''proofValue'' = JStr (fst sg))"
proof -
  from assms(1) obtain dm keys pi pc pu pd a ms sg where
    dm: "issuer_domain c cfg v = Inr dm"
    and k: "dict_get cfg ''keys'' (JObj []) = Inr keys"
    and "dict_get keys ''identity'' JNull = Inr pi"
    "dict_get keys ''compliance'' JNull = Inr pc"
    "dict_get keys ''custody'' JNull = Inr pu"
    and d: "dict_get keys ''document'' JNull = Inr pd"
    and secs: "issue_sections c dm (strip_existing_eip712 vc) (section_items pi pc pu) vc [] = Inr (a, ms)"
    and s: "sign_typed_data c pd (build_document_typed_data dm
        (keccak256_json c (strip_existing_eip712 a))) = Inr sg"
    and top: "update_top_proof a (fst sg) = Inr issued"
    and "meta = ms @ [document_record (keccak256_json c (strip_existing_eip712 a))]"
    by (rule issue_Inr_elim)
  from k d have dk: "document_key cfg = pd" by (simp add: document_key_def)
  from issue_sections_inv [OF secs section_items_paths]
  have st: "strip_existing_eip712 a = strip_existing_eip712 vc" by simp
  from issue_sections_root_proof [OF secs section_items_paths]
  have rp: "root_proof a = root_proof vc" by (simp add: root_proof_def)
  have "proof_field (root_proof issued) ''proofValue'' = JStr (fst sg)"
    if "has_key ''proofValue'' (root_proof vc)"
  proof -
    from that rp have "has_key ''proofValue'' (root_proof a)" by simp
    with top show ?thesis by (rule update_top_proof_value)
  qed
  with dm s dk st show ?thesis by (intro exI [of _ dm] exI [of _ sg]) simp
qed

lemma issue_root_signature:
  assumes "issue c vc cfg v = Inr (issued, meta)" "has_key ''proofValue'' (root_proof vc)"
  shows "\<exists>dm sg. issuer_domain c cfg v = Inr dm \<and>
           sign_typed_data c (document_key cfg)
             (build_document_typed_data dm (keccak256_json c (strip_existing_eip712 vc))) = Inr sg \<and>
           proof_field (root_proof issued) ''proofValue'' = JStr (fst sg)"
  using issue_root_signature_gen [OF assms(1)] assms(2) by blast

text \<open>
  Claim C3.  Stripping removes the root \<open>proof\<close> entry and the \<open>sProof\<close> entry of each of
  the three sections, nothing else.  The documentHash that \<^verbatim>\<open>issue\<close> records is the hash
  of the stripped credential, and the document signature is the signature, by the
  document-role key, of the Document message built from the configured domain and that
  hash; it is what \<^verbatim>\<open>issue\<close> writes into a root \<open>proofValue\<close> field.  Hence two
  issuances whose credentials agree once stripped, under configurations with the same
  domain and document key (the section keys, so the section signatures, may differ),
  record the same documentHash and write the same document signature.
\<close>

theorem document_hash_ignores_proofs:
  assumes "issue c vc1 cfg1 v1 = Inr (issued1, meta1)"
    and "issue c vc2 cfg2 v2 = Inr (issued2, meta2)"
    and "strip_existing_eip712 vc1 = strip_existing_eip712 vc2"
    and "issuer_domain c cfg1 v1 = issuer_domain c cfg2 v2"
    and "document_key cfg1 = document_key cfg2"
  shows "strip_existing_eip712 vc1 =
           dict_pop ''proof''
             (modify_at [''credentialSubject'', ''custody''] (dict_pop ''sProof'')
               (modify_at [''credentialSubject'', ''compliance''] (dict_pop ''sProof'')
                 (modify_at [''credentialSubject'', ''identity''] (dict_pop ''sProof'') vc1))) \<and>
         last meta1 = document_record (keccak256_json c (strip_existing_eip712 vc1)) \<and>
         (\<exists>dm sg. issuer_domain c cfg1 v1 = Inr dm \<and>
            sign_typed_data c (document_key cfg1)
              (build_document_typed_data dm (keccak256_json c (strip_existing_eip712 vc1))) = Inr sg \<and>
            (has_key ''proofValue'' (root_proof vc1) \<longrightarrow>
               proof_field (root_proof issued1) ''proofValue'' = JStr (fst sg))) \<and>
         last meta2 = last meta1 \<and>
         (has_key ''proofValue'' (root_proof vc1) \<and> has_key ''proofValue'' (root_proof vc2) \<longrightarrow>
            proof_field (root_proof issued1) ''proofValue''
              = proof_field (root_proof issued2) ''proofValue'')"
proof (intro conjI impI)
  show "strip_existing_eip712 vc1 =
           dict_pop ''proof''
             (modify_at [''credentialSubject'', ''custody''] (dict_pop ''sProof'')
               (modify_at [''credentialSubject'', ''compliance''] (dict_pop ''sProof'')
                 (modify_at [''credentialSubject'', ''identity''] (dict_pop ''sProof'') vc1)))"
    by (simp only: strip_normal strip_at_def)
  from assms(1) show 1: "last meta1 = document_record (keccak256_json c (strip_existing_eip712 vc1))"
    by (rule issue_doc_hash)
  from assms(2) have "last meta2 = document_record (keccak256_json c (strip_existing_eip712 vc2))"
    by (rule issue_doc_hash)
  with 1 assms(3) show "last meta2 = last meta1" by simp
  from issue_root_signature_gen [OF assms(1)]
  show "\<exists>dm sg. issuer_domain c cfg1 v1 = Inr dm \<and>
            sign_typed_data c (document_key cfg1)
              (build_document_typed_data dm (keccak256_json c (strip_existing_eip712 vc1))) = Inr sg \<and>
            (has_key ''proofValue'' (root_proof vc1) \<longrightarrow>
               proof_field (root_proof issued1) ''proofValue'' = JStr (fst sg))" .
next
  assume hk: "has_key ''proofValue'' (root_proof vc1) \<and> has_key ''proofValue'' (root_proof vc2)"
  from issue_root_signature [OF assms(1)] hk obtain dm1 sg1 where
    1: "issuer_domain c cfg1 v1 = Inr dm1"
    "sign_typed_data c (document_key cfg1)
       (build_document_typed_data dm1 (keccak256_json c (strip_existing_eip712 vc1))) = Inr sg1"
    "proof_field (root_proof issued1) ''proofValue'' = JStr (fst sg1)" by blast
  from issue_root_signature [OF assms(2)] hk obtain dm2 sg2 where
    2: "issuer_domain c cfg2 v2 = Inr dm2"
    "sign_typed_data c (document_key cfg2)
       (build_document_typed_data dm2 (keccak256_json c (strip_existing_eip712 vc2))) = Inr sg2"
    "proof_field (root_proof issued2) ''proofValue'' = JStr (fst sg2)" by blast
  from 1 2 assms(3,4,5) show "proof_field (root_proof issued1) ''proofValue''
      = proof_field (root_proof issued2) ''proofValue''" by simp
qed

text \<open>
  Claim C6.  Issuing an already issued credential again returns, and its proof records
  (the sectionHash of every present section and the documentHash) are those of the first
  issuance.
\<close>

theorem reissue_same_hashes:
  assumes "issue c vc cfg v = Inr (issued, meta)"
  shows "\<exists>issued'. issue c issued cfg v = Inr (issued', meta)"
proof -
  from assms obtain dm keys pi pc pu pd a ms sg where
    dm: "issuer_domain c cfg v = Inr dm"
    and k: "dict_get cfg ''keys'' (JObj []) = Inr keys"
    and ki: "dict_get keys ''identity'' JNull = Inr pi"
    and kc: "dict_get keys ''compliance'' JNull = Inr pc"
    and ku: "dict_get keys ''custody'' JNull = Inr pu"
    and kd: "dict_get keys ''document'' JNull = Inr pd"
    and secs: "issue_sections c dm (strip_existing_eip712 vc) (section_items pi pc pu) vc [] = Inr (a, ms)"
    and s: "sign_typed_data c pd (build_document_typed_data dm
        (keccak256_json c (strip_existing_eip712 a))) = Inr sg"
    and top: "update_top_proof a (fst sg) = Inr issued"
    and meta: "meta = ms @ [document_record (keccak256_json c (strip_existing_eip712 a))]"
    by (rule issue_Inr_elim)
  note post = issue_doc_hash(3,4,5) [OF assms]
  note inv = issue_sections_inv [OF secs section_items_paths]
  have "\<forall>q\<in>set SECTION_PATHS. is_dict (get_by_path issued q) = is_dict (get_by_path vc q)"
    using post(3) by blast
  then have "map_sum id snd (issue_sections c dm (strip_existing_eip712 vc) (section_items pi pc pu) issued [])
      = map_sum id snd (issue_sections c dm (strip_existing_eip712 vc) (section_items pi pc pu) vc [])"
    using section_items_paths by (rule issue_sections_meta_cong)
  with secs obtain a2 where
    secs2: "issue_sections c dm (strip_existing_eip712 issued) (section_items pi pc pu) issued [] = Inr (a2, ms)"
    unfolding post(1)
    by (cases "issue_sections c dm (strip_existing_eip712 vc) (section_items pi pc pu) issued []") auto
  note inv2 = issue_sections_inv [OF secs2 section_items_paths]
  from inv inv2 post(1) have st: "strip_existing_eip712 a2 = strip_existing_eip712 a" by simp
  from inv2 post(2) have "is_dict a2" by simp
  then obtain b where top2: "update_top_proof a2 (fst sg) = Inr b"
    using update_top_proof_dict by blast
  from s st have s2: "sign_typed_data c pd (build_document_typed_data dm
        (keccak256_json c (strip_existing_eip712 a2))) = Inr sg" by simp
  from issue_Inr_intro [OF dm k ki kc ku kd secs2 s2 top2] meta st
  show ?thesis by auto
qed

lemma not_isl_projr: "\<not> isl x \<Longrightarrow> x = Inr (fst (projr x), snd (projr x))"
  by (cases x) simp_all

lemma test_issue_scenario_returns:
  "\<not> isl (issue test_env scenario_doc (scenario_cfg ''RWA-VC'') default_verifying_contract)"
  by code_simp

lemma test_issue_stale_returns:
  "\<not> isl (issue test_env scenario_doc_stale (scenario_cfg ''RWA-VC'') default_verifying_contract)"
  by code_simp

lemma test_issue_stale_other_returns:
  "\<not> isl (issue test_env scenario_doc_stale scenario_cfg_other_section_keys
            default_verifying_contract)"
  by code_simp

lemma test_issuer_domain:
  "issuer_domain test_env (scenario_cfg ''RWA-VC'') default_verifying_contract = Inr default_domain"
  "issuer_domain test_env scenario_cfg_other_section_keys default_verifying_contract
     = Inr default_domain"
  by code_simp+

theorem document_hash_ignores_proofs_witness:
  "strip_existing_eip712 scenario_doc = scenario_stripped \<and>
   strip_existing_eip712 scenario_doc_stale = scenario_stripped \<and>
   section_proof (fst (projr (issue test_env scenario_doc (scenario_cfg ''RWA-VC'')
                       default_verifying_contract))) ''/credentialSubject/identity''
     \<noteq> section_proof (fst (projr (issue test_env scenario_doc_stale
                       scenario_cfg_other_section_keys default_verifying_contract)))
           ''/credentialSubject/identity'' \<and>
   last (snd (projr (issue test_env scenario_doc (scenario_cfg ''RWA-VC'')
                       default_verifying_contract)))
     = document_record (keccak256_json test_env scenario_stripped) \<and>
   last (snd (projr (issue test_env scenario_doc_stale scenario_cfg_other_section_keys
                       default_verifying_contract)))
     = document_record (keccak256_json test_env scenario_stripped) \<and>
   proof_field (root_proof (fst (projr (issue test_env scenario_doc (scenario_cfg ''RWA-VC'')
                       default_verifying_contract)))) ''proofValue''
     = JStr (fst (projr (sign_typed_data test_env (JStr ''k4'')
         (build_document_typed_data default_domain (keccak256_json test_env scenario_stripped))))) \<and>
   proof_field (root_proof (fst (projr (issue test_env scenario_doc_stale
                       scenario_cfg_other_section_keys default_verifying_contract)))) ''proofValue''
     = JStr (fst (projr (sign_typed_data test_env (JStr ''k4'')
         (build_document_typed_data default_domain (keccak256_json test_env scenario_stripped)))))"
proof -
  let ?r1 = "issue test_env scenario_doc (scenario_cfg ''RWA-VC'') default_verifying_contract"
  let ?r2 = "issue test_env scenario_doc_stale scenario_cfg_other_section_keys
               default_verifying_contract"
  have s1: "strip_existing_eip712 scenario_doc = scenario_stripped"
    and s2: "strip_existing_eip712 scenario_doc_stale = scenario_stripped"
    by code_simp+
  have ne: "section_proof (fst (projr ?r1)) ''/credentialSubject/identity''
      \<noteq> section_proof (fst (projr ?r2)) ''/credentialSubject/identity''"
    by code_simp
  have hk: "has_key ''proofValue'' (root_proof scenario_doc)"
    "has_key ''proofValue'' (root_proof scenario_doc_stale)" by code_simp+
  have dk: "document_key (scenario_cfg ''RWA-VC'') = JStr ''k4''"
    "document_key scenario_cfg_other_section_keys = JStr ''k4''" by code_simp+
  have s: "strip_existing_eip712 scenario_doc = strip_existing_eip712 scenario_doc_stale"
    using s1 s2 by simp
  have de: "issuer_domain test_env (scenario_cfg ''RWA-VC'') default_verifying_contract
      = issuer_domain test_env scenario_cfg_other_section_keys default_verifying_contract"
    using test_issuer_domain by simp
  have ke: "document_key (scenario_cfg ''RWA-VC'') = document_key scenario_cfg_other_section_keys"
    using dk by simp
  note main = document_hash_ignores_proofs
    [OF not_isl_projr [OF test_issue_scenario_returns]
        not_isl_projr [OF test_issue_stale_other_returns] s de ke]
  from main obtain dm sg where
    d: "issuer_domain test_env (scenario_cfg ''RWA-VC'') default_verifying_contract = Inr dm"
    and g: "sign_typed_data test_env (document_key (scenario_cfg ''RWA-VC''))
         (build_document_typed_data dm
            (keccak256_json test_env (strip_existing_eip712 scenario_doc))) = Inr sg"
    and v: "has_key ''proofValue'' (root_proof scenario_doc) \<longrightarrow>
              proof_field (root_proof (fst (projr ?r1))) ''proofValue'' = JStr (fst sg)"
    by blast
  from d test_issuer_domain(1) have dm: "dm = default_domain" by simp
  from g dm dk s1 have "sg = projr (sign_typed_data test_env (JStr ''k4'')
         (build_document_typed_data default_domain (keccak256_json test_env scenario_stripped)))"
    by simp
  with v hk main s1 s2 ne show ?thesis by simp
qed

theorem reissue_same_hashes_witness:
  "\<exists>issued'. issue test_env
       (fst (projr (issue test_env scenario_doc (scenario_cfg ''RWA-VC'') default_verifying_contract)))
       (scenario_cfg ''RWA-VC'') default_verifying_contract
     = Inr (issued',
         snd (projr (issue test_env scenario_doc (scenario_cfg ''RWA-VC'') default_verifying_contract)))"
  by (rule reissue_same_hashes [OF not_isl_projr [OF test_issue_scenario_returns]])

lemma filter_update_excluded:
  "k \<in> ks \<Longrightarrow> filter (\<lambda>kv. fst kv \<notin> ks) (AList.update k v kvs) = filter (\<lambda>kv. fst kv \<notin> ks) kvs"
  by (induction kvs) auto

lemma other_fields_dict_set:
  "k \<in> set ks \<Longrightarrow> other_fields ks (dict_set k v p) = other_fields ks p"
  by (cases p) (simp_all add: other_fields_def dict_set_def filter_update_excluded)

lemma proof_keys_dict_set:
  "has_key k p \<Longrightarrow> proof_keys (dict_set k v p) = proof_keys p"
  by (cases p) (simp_all add: proof_keys_def dict_set_def has_key_def update_keys)

lemma update_section_proof_eq:
  assumes "is_dict s"
  shows "update_section_proof s h sg =
     Inr (if is_dict (proof_field s ''sProof'') then
            dict_set ''sProof''
              (let p1 = (if has_key ''type'' (proof_field s ''sProof'')
                         then dict_set ''type'' (JStr ''Eip712Signature2023'') (proof_field s ''sProof'')
                         else proof_field s ''sProof'');
                   p2 = (if has_key ''sectionHash'' p1
                         then dict_set ''sectionHash'' (JStr h) p1 else p1)
               in if has_key ''proofValue'' p2 then dict_set ''proofValue'' (JStr sg) p2 else p2) s
          else s)"
  using assms by (elim is_dictE) (simp add: update_section_proof_def proof_field_def Let_def)

lemma update_section_proof_schema:
  assumes "update_section_proof s h sg = Inr s'" "is_dict s"
  shows "proof_keys (proof_field s' ''sProof'') = proof_keys (proof_field s ''sProof'')"
    and "other_fields [''type'', ''sectionHash'', ''proofValue''] (proof_field s' ''sProof'')
           = other_fields [''type'', ''sectionHash'', ''proofValue''] (proof_field s ''sProof'')"
proof -
  let ?p = "proof_field s ''sProof''"
  let ?p1 = "if has_key ''type'' ?p then dict_set ''type'' (JStr ''Eip712Signature2023'') ?p else ?p"
  let ?p2 = "if has_key ''sectionHash'' ?p1 then dict_set ''sectionHash'' (JStr h) ?p1 else ?p1"
  let ?p3 = "if has_key ''proofValue'' ?p2 then dict_set ''proofValue'' (JStr sg) ?p2 else ?p2"
  have k: "proof_keys ?p3 = proof_keys ?p" by (simp add: proof_keys_dict_set)
  have o: "other_fields [''type'', ''sectionHash'', ''proofValue''] ?p3
           = other_fields [''type'', ''sectionHash'', ''proofValue''] ?p"
    by (simp add: other_fields_dict_set)
  have "Inr s' = update_section_proof s h sg" using assms(1) by simp
  also note update_section_proof_eq [OF assms(2), of h sg]
  finally have s': "s' = (if is_dict ?p then dict_set ''sProof'' ?p3 s else s)"
    by (simp add: Let_def)
  show "proof_keys (proof_field s' ''sProof'') = proof_keys ?p"
    unfolding s' using k assms(2) by (simp add: proof_field_dict_set_same)
  show "other_fields [''type'', ''sectionHash'', ''proofValue''] (proof_field s' ''sProof'')
           = other_fields [''type'', ''sectionHash'', ''proofValue''] ?p"
    unfolding s' using o assms(2) by (simp add: proof_field_dict_set_same)
qed

lemma update_top_proof_schema:
  assumes "update_top_proof a sg = Inr b"
  shows "proof_keys (root_proof b) = proof_keys (root_proof a)"
    and "other_fields [''type'', ''proofValue''] (root_proof b)
           = other_fields [''type'', ''proofValue''] (root_proof a)"
proof -
  from assms have da: "is_dict a" by (rule update_top_proof_Inr)
  let ?p = "root_proof a"
  let ?p1 = "if has_key ''type'' ?p then dict_set ''type'' (JStr ''Eip712Signature2023'') ?p else ?p"
  let ?p2 = "if has_key ''proofValue'' ?p1 then dict_set ''proofValue'' (JStr sg) ?p1 else ?p1"
  have k: "proof_keys ?p2 = proof_keys ?p" by (simp add: proof_keys_dict_set)
  have o: "other_fields [''type'', ''proofValue''] ?p2 = other_fields [''type'', ''proofValue''] ?p"
    by (simp add: other_fields_dict_set)
  have "Inr b = update_top_proof a sg" using assms by simp
  also note update_top_proof_eq [OF da, of sg]
  finally have b: "b = (if is_dict ?p then dict_set ''proof'' ?p2 a else a)"
    by (simp add: Let_def)
  show "proof_keys (root_proof b) = proof_keys ?p"
    unfolding b using k da by (simp add: root_proof_dict_set)
  show "other_fields [''type'', ''proofValue''] (root_proof b) = other_fields [''type'', ''proofValue''] ?p"
    unfolding b using o da by (simp add: root_proof_dict_set)
qed

lemma issue_sections_schema:
  assumes "issue_sections c dm clean items a m = Inr (a', m')"
    and "fst ` set items \<subseteq> set SECTION_PATHS"
  shows "\<forall>q\<in>set SECTION_PATHS. same_section_schema a' a q"
proof (rule issue_sections_preserves [OF assms,
         where P = "\<lambda>b. \<forall>q\<in>set SECTION_PATHS. same_section_schema b a q"])
  show "\<forall>q\<in>set SECTION_PATHS. same_section_schema a a q"
    by (simp add: same_section_schema_def)
next
  fix p b h sg s'
  assume p: "p \<in> set SECTION_PATHS" and d: "is_dict (get_by_path b p)"
    and u: "update_section_proof (get_by_path b p) h sg = Inr s'"
    and b: "\<forall>q\<in>set SECTION_PATHS. same_section_schema b a q"
  show "\<forall>q\<in>set SECTION_PATHS. same_section_schema (modify_at (path_parts p) (\<lambda>_. s') b) a q"
  proof
    fix q assume q: "q \<in> set SECTION_PATHS"
    show "same_section_schema (modify_at (path_parts p) (\<lambda>_. s') b) a q"
    proof (cases "q = p")
      case True
      from section_step(3) [OF p d u] update_section_proof_schema [OF u d] b p True
      show ?thesis by (simp add: same_section_schema_def section_proof_def)
    next
      case False
      from section_step(4) [OF p d u q False] b q
      show ?thesis by (simp add: same_section_schema_def section_proof_def)
    qed
  qed
qed

text \<open>
  Claim C5.  Issuance keeps the schema of every proof object: for each section path the
  key list of the section's sProof object is the input's, and so is the key list of the
  root proof object; every field other than type / sectionHash / proofValue (for the root:
  type / proofValue) keeps its value, and a proof slot that is not an object is left as
  it is.
\<close>

theorem issue_preserves_proof_schema:
  assumes "issue c vc cfg v = Inr (issued, meta)"
  shows "(\<forall>path\<in>set SECTION_PATHS.
            proof_keys (section_proof issued path) = proof_keys (section_proof vc path) \<and>
            other_fields [''type'', ''sectionHash'', ''proofValue''] (section_proof issued path)
              = other_fields [''type'', ''sectionHash'', ''proofValue''] (section_proof vc path)) \<and>
         proof_keys (root_proof issued) = proof_keys (root_proof vc) \<and>
         other_fields [''type'', ''proofValue''] (root_proof issued)
           = other_fields [''type'', ''proofValue''] (root_proof vc)"
proof -
  from assms obtain dm keys pi pc pu pd a ms sg where
    "issuer_domain c cfg v = Inr dm"
    "dict_get cfg ''keys'' (JObj []) = Inr keys"
    "dict_get keys ''identity'' JNull = Inr pi"
    "dict_get keys ''compliance'' JNull = Inr pc"
    "dict_get keys ''custody'' JNull = Inr pu"
    "dict_get keys ''document'' JNull = Inr pd"
    and secs: "issue_sections c dm (strip_existing_eip712 vc) (section_items pi pc pu) vc [] = Inr (a, ms)"
    and "sign_typed_data c pd (build_document_typed_data dm
        (keccak256_json c (strip_existing_eip712 a))) = Inr sg"
    and top: "update_top_proof a (fst sg) = Inr issued"
    and "meta = ms @ [document_record (keccak256_json c (strip_existing_eip712 a))]"
    by (rule issue_Inr_elim)
  from issue_sections_schema [OF secs section_items_paths]
  have "\<forall>q\<in>set SECTION_PATHS. same_section_schema a vc q" .
  moreover have "section_proof issued q = section_proof a q" if "q \<in> set SECTION_PATHS" for q
    using update_top_proof_Inr(4) [OF top that] by (simp add: section_proof_def)
  ultimately have 1: "\<forall>path\<in>set SECTION_PATHS.
            proof_keys (section_proof issued path) = proof_keys (section_proof vc path) \<and>
            other_fields [''type'', ''sectionHash'', ''proofValue''] (section_proof issued path)
              = other_fields [''type'', ''sectionHash'', ''proofValue''] (section_proof vc path)"
    by (simp add: same_section_schema_def)
  from issue_sections_root_proof [OF secs section_items_paths]
  have "root_proof a = root_proof vc" by (simp add: root_proof_def)
  with update_top_proof_schema [OF top] 1 show ?thesis by simp
qed

lemma test_issue_partial_returns:
  "\<not> isl (issue test_env scenario_doc_partial (scenario_cfg ''RWA-VC'') default_verifying_contract)"
  by code_simp

theorem issue_preserves_proof_schema_witness:
  "proof_keys (section_proof (fst (projr (issue test_env scenario_doc_partial
       (scenario_cfg ''RWA-VC'') default_verifying_contract))) ''/credentialSubject/identity'')
     = [''type'', ''note''] \<and>
   other_fields [''type'', ''sectionHash'', ''proofValue'']
     (section_proof (fst (projr (issue test_env scenario_doc_partial
       (scenario_cfg ''RWA-VC'') default_verifying_contract))) ''/credentialSubject/identity'')
     = JObj [(''note'', JInt 7)] \<and>
   other_fields [''type'', ''sectionHash'', ''proofValue'']
     (section_proof (fst (projr (issue test_env scenario_doc_partial
       (scenario_cfg ''RWA-VC'') default_verifying_contract))) ''/credentialSubject/custody'')
     = JStr ''n/a'' \<and>
   proof_keys (root_proof (fst (projr (issue test_env scenario_doc_partial
       (scenario_cfg ''RWA-VC'') default_verifying_contract))))
     = [''created'', ''proofValue''] \<and>
   other_fields [''type'', ''proofValue'']
     (root_proof (fst (projr (issue test_env scenario_doc_partial
       (scenario_cfg ''RWA-VC'') default_verifying_contract))))
     = JObj [(''created'', JStr ''2024'')] \<and>
   fst (projr (issue test_env scenario_doc_partial (scenario_cfg ''RWA-VC'')
       default_verifying_contract)) \<noteq> scenario_doc_partial"
proof -
  have p: "''/credentialSubject/identity'' \<in> set SECTION_PATHS"
    "''/credentialSubject/custody'' \<in> set SECTION_PATHS" by (simp_all add: SECTION_PATHS_def)
  have k: "proof_keys (section_proof scenario_doc_partial ''/credentialSubject/identity'')
      = [''type'', ''note'']"
    "other_fields [''type'', ''sectionHash'', ''proofValue'']
       (section_proof scenario_doc_partial ''/credentialSubject/identity'') = JObj [(''note'', JInt 7)]"
    "other_fields [''type'', ''sectionHash'', ''proofValue'']
       (section_proof scenario_doc_partial ''/credentialSubject/custody'') = JStr ''n/a''"
    "proof_keys (root_proof scenario_doc_partial) = [''created'', ''proofValue'']"
    "other_fields [''type'', ''proofValue''] (root_proof scenario_doc_partial)
       = JObj [(''created'', JStr ''2024'')]"
    by code_simp+
  have ne: "fst (projr (issue test_env scenario_doc_partial (scenario_cfg ''RWA-VC'')
       default_verifying_contract)) \<noteq> scenario_doc_partial" by code_simp
  from issue_preserves_proof_schema [OF not_isl_projr [OF test_issue_partial_returns]] p k ne
  show ?thesis by simp
qed

lemma proof_field_Inr: "is_dict p \<Longrightarrow> dict_get p k JNull = Inr (proof_field p k)"
  by (erule is_dictE) (simp add: proof_field_def)

lemma dict_get_default:
  "is_dict p \<Longrightarrow> dict_get p k dflt = Inr (if has_key k p then proof_field p k else dflt)"
proof (erule is_dictE)
  fix kvs assume p: "p = JObj kvs"
  show ?thesis
  proof (cases "map_of kvs k")
    case None
    then have "k \<notin> fst ` set kvs" by (simp add: map_of_eq_None_iff)
    with p None show ?thesis by (simp add: has_key_def)
  next
    case (Some x)
    then have "k \<in> fst ` set kvs" by (metis map_of_eq_None_iff option.distinct(1))
    with p Some show ?thesis by (simp add: has_key_def proof_field_def)
  qed
qed

lemma verify_section_absent:
  "\<not> is_dict (get_by_path vc path) \<Longrightarrow> verify_section c vc clean e path = Inr None"
  by (simp add: verify_section_def)

lemma verify_section_missing:
  "is_dict (get_by_path vc path) \<Longrightarrow> \<not> is_dict (section_proof vc path) \<Longrightarrow>
     verify_section c vc clean e path = Inr (Some (missing_sproof_result path))"
  by (simp add: verify_section_def Let_def section_proof_def proof_field_Inr)

lemma verify_sections_append:
  "verify_sections c vc clean e paths (rs0 @ rs) =
     map_sum id ((@) rs0) (verify_sections c vc clean e paths rs)"
  by (induction paths arbitrary: rs) (auto split: sum.splits option.splits)

lemma verify_sections_Cons_Inr:
  assumes "verify_sections c vc clean e (p # paths) [] = Inr rs"
  obtains r rs' where "verify_section c vc clean e p = Inr r"
    "verify_sections c vc clean e paths [] = Inr rs'"
    "rs = (case r of None \<Rightarrow> [] | Some x \<Rightarrow> [x]) @ rs'"
proof (cases "verify_section c vc clean e p")
  case (Inl err)
  with assms show ?thesis by simp
next
  case (Inr r)
  show ?thesis
  proof (cases r)
    case None
    with Inr assms that show ?thesis by simp
  next
    case (Some x)
    with Inr assms have "verify_sections c vc clean e paths ([x] @ []) = Inr rs" by simp
    then obtain rs' where "verify_sections c vc clean e paths [] = Inr rs'" "rs = [x] @ rs'"
      unfolding verify_sections_append
      by (cases "verify_sections c vc clean e paths []") auto
    with Inr Some that show ?thesis by simp
  qed
qed

lemma verify_document_missing:
  "is_dict vc \<Longrightarrow> \<not> is_dict (root_proof vc) \<Longrightarrow>
     verify_document c vc e results = Inr (results @ [missing_proof_result])"
  by (erule is_dictE) (simp add: verify_document_def root_proof_def)

lemma verify_sections_mem:
  assumes "verify_sections c vc clean e paths rs0 = Inr rs" "p \<in> set paths"
    "verify_section c vc clean e p = Inr (Some r)"
  shows "r \<in> set rs"
  using assms
proof (induction paths arbitrary: rs0)
  case Nil
  then show ?case by simp
next
  case (Cons q paths)
  have keep: "x \<in> set rs" if "x \<in> set rs1" "verify_sections c vc clean e paths rs1 = Inr rs" for x rs1
  proof -
    from that(2) have "verify_sections c vc clean e paths (rs1 @ []) = Inr rs" by simp
    then obtain t where "rs = rs1 @ t" unfolding verify_sections_append
      by (cases "verify_sections c vc clean e paths []") auto
    with that(1) show ?thesis by simp
  qed
  show ?case
  proof (cases "q = p")
    case True
    with Cons.prems(1,3) have "verify_sections c vc clean e paths (rs0 @ [r]) = Inr rs" by simp
    then show ?thesis by (intro keep [of r "rs0 @ [r]"]) simp_all
  next
    case False
    with Cons.prems(2) have "p \<in> set paths" by simp
    with Cons.prems(1,3) Cons.IH show ?thesis
      by (auto split: sum.splits option.splits)
  qed
qed

text \<open>
  Claim C8, as the code has it.  A present section whose sProof slot is not an object gets
  the result \<open>{path, ok: false, reason: "missing sProof"}\<close> and the loop goes on to the
  next path; that result is in the list \<^verbatim>\<open>verify\<close> returns.  When the root proof slot
  of a credential is not an object, \<^verbatim>\<open>verify\<close> returns the section results followed by
  the one entry \<open>{path: "/", ok: false, reason: "missing proof"}\<close>.
\<close>

theorem verify_missing_proof_results:
  "(is_dict (get_by_path vc path) \<and> \<not> is_dict (section_proof vc path) \<longrightarrow>
      verify_sections c vc clean e (path # rest) results
        = verify_sections c vc clean e rest (results @ [missing_sproof_result path])) \<and>
   (path \<in> set SECTION_PATHS \<and> is_dict (get_by_path vc path) \<and> \<not> is_dict (section_proof vc path)
      \<and> verify c vc e = Inr out \<longrightarrow> missing_sproof_result path \<in> set out) \<and>
   (is_dict vc \<and> \<not> is_dict (root_proof vc) \<and>
      verify_sections c vc (strip_eip712 vc) e SECTION_PATHS [] = Inr results \<longrightarrow>
      verify c vc e = Inr (results @ [missing_proof_result]))"
proof (intro conjI impI)
  assume "is_dict (get_by_path vc path) \<and> \<not> is_dict (section_proof vc path)"
  then show "verify_sections c vc clean e (path # rest) results
        = verify_sections c vc clean e rest (results @ [missing_sproof_result path])"
    by (simp add: verify_section_missing)
next
  assume a: "path \<in> set SECTION_PATHS \<and> is_dict (get_by_path vc path) \<and>
      \<not> is_dict (section_proof vc path) \<and> verify c vc e = Inr out"
  then obtain rs where rs: "verify_sections c vc (strip_eip712 vc) e SECTION_PATHS [] = Inr rs"
    and out: "verify_document c vc e rs = Inr out"
    by (cases "verify_sections c vc (strip_eip712 vc) e SECTION_PATHS []") (auto simp: verify_def)
  from a have "verify_section c vc (strip_eip712 vc) e path = Inr (Some (missing_sproof_result path))"
    by (simp add: verify_section_missing)
  with rs a have "missing_sproof_result path \<in> set rs" by (intro verify_sections_mem) auto
  moreover from out obtain t where "out = rs @ t"
    by (auto simp: verify_document_def Let_def split: sum.splits if_splits)
  ultimately show "missing_sproof_result path \<in> set out" by simp
next
  assume "is_dict vc \<and> \<not> is_dict (root_proof vc) \<and>
      verify_sections c vc (strip_eip712 vc) e SECTION_PATHS [] = Inr results"
  then show "verify c vc e = Inr (results @ [missing_proof_result])"
    by (simp add: verify_def verify_document_missing)
qed

lemma test_verify_missing:
  "verify test_env doc_missing_proofs JNull
     = Inr [missing_sproof_result ''/credentialSubject/identity'', missing_proof_result]"
  by code_simp

theorem verify_missing_proof_results_witness:
  "verify_sections test_env doc_missing_proofs (strip_eip712 doc_missing_proofs) JNull
       (''/credentialSubject/identity'' # []) []
     = verify_sections test_env doc_missing_proofs (strip_eip712 doc_missing_proofs) JNull []
         ([] @ [missing_sproof_result ''/credentialSubject/identity'']) \<and>
   missing_sproof_result ''/credentialSubject/identity''
     \<in> set [missing_sproof_result ''/credentialSubject/identity'', missing_proof_result] \<and>
   verify test_env doc_missing_proofs JNull
     = Inr ([missing_sproof_result ''/credentialSubject/identity''] @ [missing_proof_result])"
proof -
  have p: "''/credentialSubject/identity'' \<in> set SECTION_PATHS" by (simp add: SECTION_PATHS_def)
  have h: "is_dict (get_by_path doc_missing_proofs ''/credentialSubject/identity'')"
    "\<not> is_dict (section_proof doc_missing_proofs ''/credentialSubject/identity'')"
    "is_dict doc_missing_proofs" "\<not> is_dict (root_proof doc_missing_proofs)"
    by code_simp+
  have s: "verify_sections test_env doc_missing_proofs (strip_eip712 doc_missing_proofs) JNull
       SECTION_PATHS [] = Inr [missing_sproof_result ''/credentialSubject/identity'']"
    by code_simp
  from verify_missing_proof_results
    [of doc_missing_proofs "''/credentialSubject/identity''" test_env
        "strip_eip712 doc_missing_proofs" JNull "[]" "[]"
        "[missing_sproof_result ''/credentialSubject/identity'', missing_proof_result]"]
    verify_missing_proof_results
    [of doc_missing_proofs "''/credentialSubject/identity''" test_env
        "strip_eip712 doc_missing_proofs" JNull "[]"
        "[missing_sproof_result ''/credentialSubject/identity'']"
        "[missing_sproof_result ''/credentialSubject/identity'', missing_proof_result]"]
    p h s test_verify_missing
  show ?thesis by simp
qed

theorem verify_missing_section_proof_reason_counterexample:
  "is_dict (get_by_path doc_missing_proofs ''/credentialSubject/identity'') \<and>
   \<not> is_dict (section_proof doc_missing_proofs ''/credentialSubject/identity'') \<and>
   verify test_env doc_missing_proofs JNull
     = Inr [JObj [(''path'', JStr ''/credentialSubject/identity''), (''ok'', JBool False),
                  (''reason'', JStr ''missing sProof'')],
            JObj [(''path'', JStr ''/''), (''ok'', JBool False), (''reason'', JStr ''missing proof'')]] \<and>
   claimed_missing_result ''/credentialSubject/identity''
     \<notin> set (projr (verify test_env doc_missing_proofs JNull))"
  by code_simp

lemma py_or_falsy: "\<not> truthy x \<Longrightarrow> py_or x y = y"
  by (simp add: py_or_def)

lemma root_proof_is_dict: "is_dict (root_proof vc) \<Longrightarrow> is_dict vc"
  by (cases vc) (simp_all add: root_proof_def dict_get_def)

lemma dict_get_root_proof: "is_dict vc \<Longrightarrow> dict_get vc ''proof'' JNull = Inr (root_proof vc)"
  by (erule is_dictE) (simp add: root_proof_def)

lemma verify_document_eq:
  assumes "is_dict (root_proof vc)"
    and "verifier_domain c (root_proof vc) = Inr dm"
    and "recover_typed_data_signer c
           (build_document_typed_data dm (keccak256_json c (strip_eip712 vc)))
           (if has_key ''proofValue'' (root_proof vc)
            then proof_field (root_proof vc) ''proofValue'' else JStr []) = Inr recovered"
    and "dict_get (py_or e (JObj [])) ''document'' JNull = Inr expected_from_keys"
  shows "verify_document c vc e results =
     Inr (results @
       [JObj [(''path'', JStr ''/''),
              (''ok'', JBool ((if truthy (py_or (proof_field (root_proof vc) ''signer'') expected_from_keys)
                               then py_lower recovered
                                    = py_lower (py_str c (py_or (proof_field (root_proof vc) ''signer'')
                                                           expected_from_keys))
                               else True)
                              \<and> proof_field (root_proof vc) ''type'' = JStr ''Eip712Signature2023'')),
              (''recovered'', JStr recovered),
              (''expected'', py_or (proof_field (root_proof vc) ''signer'') expected_from_keys)]])"
proof -
  from assms(1) have "is_dict vc" by (rule root_proof_is_dict)
  then have rp: "dict_get vc ''proof'' JNull = Inr (root_proof vc)" by (rule dict_get_root_proof)
  from assms(1) have pv: "dict_get (root_proof vc) ''proofValue'' (JStr [])
      = Inr (if has_key ''proofValue'' (root_proof vc)
             then proof_field (root_proof vc) ''proofValue'' else JStr [])"
    by (rule dict_get_default)
  show ?thesis
    unfolding verify_document_def rp
    using assms by (simp add: Let_def pv proof_field_Inr)
qed

text \<open>
  Claim C10.  The document result has the four fields path, ok, recovered and expected,
  with no hash flag.  For a credential whose root proof object has no truthy signer field,
  verified with no document entry among the expected signers, whenever the section loop
  returns, the proof's domain is usable and a signer is recovered from the stored
  proofValue, \<^verbatim>\<open>verify\<close> returns the section results followed by a document result
  whose ok is exactly "type equals Eip712Signature2023": the recomputed document hash and
  the recovered signer are compared with nothing.
\<close>

theorem document_result_checks_type_only:
  assumes "verify_sections c vc (strip_eip712 vc) e SECTION_PATHS [] = Inr results"
    and "is_dict (root_proof vc)"
    and "\<not> truthy (proof_field (root_proof vc) ''signer'')"
    and "e = JNull \<or> (is_dict e \<and> \<not> has_key ''document'' e)"
    and "verifier_domain c (root_proof vc) = Inr dm"
    and "recover_typed_data_signer c
           (build_document_typed_data dm (keccak256_json c (strip_eip712 vc)))
           (if has_key ''proofValue'' (root_proof vc)
            then proof_field (root_proof vc) ''proofValue'' else JStr []) = Inr recovered"
  shows "verify c vc e =
     Inr (results @
       [JObj [(''path'', JStr ''/''),
              (''ok'', JBool (proof_field (root_proof vc) ''type'' = JStr ''Eip712Signature2023'')),
              (''recovered'', JStr recovered),
              (''expected'', JNull)]])"
proof -
  from assms(4) have ex: "dict_get (py_or e (JObj [])) ''document'' JNull = Inr JNull"
  proof
    assume "e = JNull"
    then show ?thesis by (simp add: py_or_def)
  next
    assume a: "is_dict e \<and> \<not> has_key ''document'' e"
    then have "is_dict (py_or e (JObj []))" "\<not> has_key ''document'' (py_or e (JObj []))"
      by (auto simp: py_or_def has_key_def)
    then show ?thesis by (simp add: dict_get_default)
  qed
  from assms(3) have po: "py_or (proof_field (root_proof vc) ''signer'') JNull = JNull"
    by (rule py_or_falsy)
  show ?thesis
    unfolding verify_def assms(1) sum.case
      verify_document_eq [OF assms(2) assms(5) assms(6) ex] po
    by simp
qed

lemma test_unsigned_root_sections:
  "verify_sections test_env doc_unsigned_root (strip_eip712 doc_unsigned_root) JNull SECTION_PATHS []
     = Inr [missing_sproof_result ''/credentialSubject/identity'']"
  "verify_sections test_env doc_unsigned_root_wrong_type
       (strip_eip712 doc_unsigned_root_wrong_type) JNull SECTION_PATHS []
     = Inr [missing_sproof_result ''/credentialSubject/identity'']"
  by code_simp+

theorem document_result_checks_type_only_witness:
  "verify test_env doc_unsigned_root JNull =
     Inr ([missing_sproof_result ''/credentialSubject/identity''] @
       [JObj [(''path'', JStr ''/''), (''ok'', JBool True),
              (''recovered'', JStr ''0xOther-anyone''), (''expected'', JNull)]]) \<and>
   verify test_env doc_unsigned_root_wrong_type JNull =
     Inr ([missing_sproof_result ''/credentialSubject/identity''] @
       [JObj [(''path'', JStr ''/''), (''ok'', JBool False),
              (''recovered'', JStr ''0xOther-anyone''), (''expected'', JNull)]])"
proof -
  have d: "is_dict (root_proof doc_unsigned_root)"
    "is_dict (root_proof doc_unsigned_root_wrong_type)" by code_simp+
  have s: "\<not> truthy (proof_field (root_proof doc_unsigned_root) ''signer'')"
    "\<not> truthy (proof_field (root_proof doc_unsigned_root_wrong_type) ''signer'')" by code_simp+
  have e: "JNull = JNull \<or> (is_dict JNull \<and> \<not> has_key ''document'' JNull)" by simp
  have v: "verifier_domain test_env (root_proof doc_unsigned_root) = Inr default_domain"
    "verifier_domain test_env (root_proof doc_unsigned_root_wrong_type) = Inr default_domain"
    by code_simp+
  have r: "recover_typed_data_signer test_env
           (build_document_typed_data default_domain
              (keccak256_json test_env (strip_eip712 doc_unsigned_root)))
           (if has_key ''proofValue'' (root_proof doc_unsigned_root)
            then proof_field (root_proof doc_unsigned_root) ''proofValue'' else JStr [])
           = Inr ''0xOther-anyone''"
    "recover_typed_data_signer test_env
           (build_document_typed_data default_domain
              (keccak256_json test_env (strip_eip712 doc_unsigned_root_wrong_type)))
           (if has_key ''proofValue'' (root_proof doc_unsigned_root_wrong_type)
            then proof_field (root_proof doc_unsigned_root_wrong_type) ''proofValue'' else JStr [])
           = Inr ''0xOther-anyone''"
    by code_simp+
  have t: "(proof_field (root_proof doc_unsigned_root) ''type'' = JStr ''Eip712Signature2023'') = True"
    "(proof_field (root_proof doc_unsigned_root_wrong_type) ''type'' = JStr ''Eip712Signature2023'')
       = False"
    by code_simp+
  from document_result_checks_type_only [OF test_unsigned_root_sections(1) d(1) s(1) e v(1) r(1)]
       document_result_checks_type_only [OF test_unsigned_root_sections(2) d(2) s(2) e v(2) r(2)] t
  show ?thesis by simp
qed

lemma verify_sections_first_raises:
  assumes "verify_section c vc clean e ''/credentialSubject/identity'' = Inl err"
  shows "verify_sections c vc clean e SECTION_PATHS [] = Inl err"
  unfolding SECTION_PATHS_def using assms by (simp only: verify_sections.simps sum.case)

lemma test_no_proof_value_section:
  "get_by_path doc_no_proof_value ''/credentialSubject/identity''
     = JObj [(''a'', JInt 1),
             (''sProof'', JObj [(''type'', JStr ''Eip712Signature2023''),
                                (''sectionHash'', JStr ''0x{\"a\":1}'')])]"
  by code_simp

lemma test_bad_domain_section:
  "get_by_path doc_bad_domain ''/credentialSubject/identity''
     = JObj [(''a'', JInt 1),
             (''sProof'', JObj [(''type'', JStr ''Eip712Signature2023''),
                                (''sectionHash'', JStr ''0x{\"a\":1}''),
                                (''proofValue'', JStr ''k1|x''),
                                (''domain'', JStr ''RWA-VC'')])]"
  by code_simp

text \<open>
  Claim C2 fails on the code.  \<^verbatim>\<open>verify\<close> has no exception handler: for a section whose
  proof object has no \<open>proofValue\<close> field it passes the default \<^verbatim>\<open>""\<close> to
  \<^verbatim>\<open>recover_typed_data_signer\<close>, and whenever the library rejects the empty signature the
  exception leaves \<^verbatim>\<open>verify\<close>; a proof object whose \<open>domain\<close> field is not an object
  makes \<^verbatim>\<open>verify\<close> raise \<^verbatim>\<open>AttributeError\<close> whatever the library does.  Both
  credentials are objects.
\<close>

theorem verify_raises_on_malformed_proof:
  "is_dict doc_no_proof_value \<and> is_dict doc_bad_domain \<and>
   ((\<forall>encoded. recover_message c encoded (JStr []) = None) \<longrightarrow>
      verify c doc_no_proof_value e = Inl LibraryError) \<and>
   verify c doc_bad_domain e = Inl AttributeError"
proof (intro conjI impI)
  show "is_dict doc_no_proof_value" by (simp add: doc_no_proof_value_def)
  show "is_dict doc_bad_domain" by (simp add: doc_bad_domain_def)
next
  assume h: "\<forall>encoded. recover_message c encoded (JStr []) = None"
  have r: "recover_typed_data_signer c t (JStr []) = Inl LibraryError" for t
    using h by (simp add: recover_typed_data_signer_def split: option.splits)
  have "verify_section c doc_no_proof_value (strip_eip712 doc_no_proof_value) e
          ''/credentialSubject/identity'' = Inl LibraryError"
    unfolding verify_section_def test_no_proof_value_section
    by (simp add: Let_def verifier_domain_def default_domain_dict_def py_int_def py_str_def r)
  then have "verify_sections c doc_no_proof_value (strip_eip712 doc_no_proof_value) e
      SECTION_PATHS [] = Inl LibraryError"
    by (rule verify_sections_first_raises)
  then show "verify c doc_no_proof_value e = Inl LibraryError" by (simp add: verify_def)
next
  have "verify_section c doc_bad_domain (strip_eip712 doc_bad_domain) e
          ''/credentialSubject/identity'' = Inl AttributeError"
    unfolding verify_section_def test_bad_domain_section
    by (simp add: Let_def verifier_domain_def dict_get_def)
  then have "verify_sections c doc_bad_domain (strip_eip712 doc_bad_domain) e
      SECTION_PATHS [] = Inl AttributeError"
    by (rule verify_sections_first_raises)
  then show "verify c doc_bad_domain e = Inl AttributeError" by (simp add: verify_def)
qed

theorem verify_raises_on_malformed_proof_witness:
  "(\<forall>encoded. recover_message test_env encoded (JStr []) = None) \<and>
   verify test_env doc_no_proof_value JNull = Inl LibraryError \<and>
   verify test_env doc_bad_domain JNull = Inl AttributeError"
proof -
  have h: "\<forall>encoded. recover_message test_env encoded (JStr []) = None"
    by (simp add: test_env_def test_recover_def)
  with verify_raises_on_malformed_proof [of test_env JNull] show ?thesis by blast
qed
















end
